theory Spec2Isabelle
  imports Complex_Main "HOL-Library.Log_Nat"
begin

section \<open>JavaScript numbers and strings, as far as the scheduler uses them\<close>

text \<open>
  A JavaScript number is an IEEE 754 binary64 value: \<open>NaN\<close>, an infinity, or a finite
  value, which is a rational number. The two zeros are not told apart (\<open>Fin 0\<close> stands for
  both); no comparison and no result below depends on the sign of a zero.
\<close>

datatype jsnum = NaN | Fin rat | PosInf | NegInf

text \<open>
  Rounding a rational to binary64, to the nearest value with ties to even. \<open>expo x\<close> is the
  binary exponent of a non-zero \<open>x\<close>: \<open>2 powi expo x \<le> \<bar>x\<bar> < 2 powi (expo x + 1)\<close>. The
  spacing of the binary64 values around \<open>x\<close> is \<open>quantum x\<close>: 52 fraction bits below the
  exponent, and the fixed spacing of the subnormal values below \<open>2 powi (-1022)\<close>.
\<close>

definition expo :: "rat \<Rightarrow> int" where
  "expo x =
     (let (p, q) = quotient_of \<bar>x\<bar>;
          k = bitlen p - bitlen q
      in if 2 powi k \<le> \<bar>x\<bar> then k else k - 1)"

definition rhe :: "rat \<Rightarrow> int" where
  "rhe x =
     (let f = \<lfloor>x\<rfloor>; r = x - of_int f
      in if r < 1 / 2 then f
         else if 1 / 2 < r then f + 1
         else if even f then f else f + 1)"

definition quantum :: "rat \<Rightarrow> rat" where
  "quantum x = 2 powi (max (expo x) (- 1022) - 52)"

definition fl :: "rat \<Rightarrow> rat" where
  "fl x = (if x = 0 then 0 else of_int (rhe (x / quantum x)) * quantum x)"

text \<open>The number that an operation with exact result \<open>x\<close> yields: an infinity on overflow.\<close>

definition js_num :: "rat \<Rightarrow> jsnum" where
  "js_num x =
     (let y = fl x
      in if 2 ^ 1024 \<le> y then PosInf
         else if y \<le> - (2 ^ 1024) then NegInf
         else Fin y)"

fun js_mul :: "jsnum \<Rightarrow> jsnum \<Rightarrow> jsnum" where
  "js_mul NaN _ = NaN"
| "js_mul _ NaN = NaN"
| "js_mul (Fin a) (Fin b) = js_num (a * b)"
| "js_mul (Fin a) PosInf = (if a = 0 then NaN else if 0 < a then PosInf else NegInf)"
| "js_mul (Fin a) NegInf = (if a = 0 then NaN else if 0 < a then NegInf else PosInf)"
| "js_mul PosInf (Fin b) = (if b = 0 then NaN else if 0 < b then PosInf else NegInf)"
| "js_mul NegInf (Fin b) = (if b = 0 then NaN else if 0 < b then NegInf else PosInf)"
| "js_mul PosInf PosInf = PosInf"
| "js_mul PosInf NegInf = NegInf"
| "js_mul NegInf PosInf = NegInf"
| "js_mul NegInf NegInf = PosInf"

fun js_add :: "jsnum \<Rightarrow> jsnum \<Rightarrow> jsnum" where
  "js_add NaN _ = NaN"
| "js_add _ NaN = NaN"
| "js_add (Fin a) (Fin b) = js_num (a + b)"
| "js_add (Fin a) PosInf = PosInf"
| "js_add (Fin a) NegInf = NegInf"
| "js_add PosInf (Fin b) = PosInf"
| "js_add NegInf (Fin b) = NegInf"
| "js_add PosInf PosInf = PosInf"
| "js_add PosInf NegInf = NaN"
| "js_add NegInf PosInf = NaN"
| "js_add NegInf NegInf = NegInf"

text \<open>Division; a zero divisor is taken as the positive zero, which is what an empty count is.\<close>

fun js_div :: "jsnum \<Rightarrow> jsnum \<Rightarrow> jsnum" where
  "js_div NaN _ = NaN"
| "js_div _ NaN = NaN"
| "js_div (Fin a) (Fin b) =
     (if b = 0 then (if a = 0 then NaN else if 0 < a then PosInf else NegInf)
      else js_num (a / b))"
| "js_div (Fin a) PosInf = Fin 0"
| "js_div (Fin a) NegInf = Fin 0"
| "js_div PosInf (Fin b) = (if 0 \<le> b then PosInf else NegInf)"
| "js_div NegInf (Fin b) = (if 0 \<le> b then NegInf else PosInf)"
| "js_div PosInf PosInf = NaN"
| "js_div PosInf NegInf = NaN"
| "js_div NegInf PosInf = NaN"
| "js_div NegInf NegInf = NaN"

text \<open>Every comparison with \<open>NaN\<close> is false.\<close>

fun js_le :: "jsnum \<Rightarrow> jsnum \<Rightarrow> bool" where
  "js_le NaN _ = False"
| "js_le _ NaN = False"
| "js_le (Fin a) (Fin b) = (a \<le> b)"
| "js_le NegInf _ = True"
| "js_le _ PosInf = True"
| "js_le _ _ = False"

fun js_lt :: "jsnum \<Rightarrow> jsnum \<Rightarrow> bool" where
  "js_lt NaN _ = False"
| "js_lt _ NaN = False"
| "js_lt (Fin a) (Fin b) = (a < b)"
| "js_lt PosInf _ = False"
| "js_lt _ NegInf = False"
| "js_lt _ _ = True"

definition js_ge :: "jsnum \<Rightarrow> jsnum \<Rightarrow> bool" where
  "js_ge a b = js_le b a"

text \<open>\<open>Math.ceil\<close> and \<open>Math.round\<close> (the nearest integer, halves upwards) on numbers.\<close>

fun Math_ceil :: "jsnum \<Rightarrow> jsnum" where
  "Math_ceil (Fin a) = Fin (of_int \<lceil>a\<rceil>)"
| "Math_ceil x = x"

definition Math_round :: "rat \<Rightarrow> int" where
  "Math_round x = \<lfloor>x + 1 / 2\<rfloor>"

fun Math_round_js :: "jsnum \<Rightarrow> jsnum" where
  "Math_round_js (Fin a) = Fin (of_int (Math_round a))"
| "Math_round_js x = x"

text \<open>
  \<open>String.prototype.split\<close> with a one-character separator: the pieces between the
  separators, always at least one piece.
\<close>

fun split_js :: "char \<Rightarrow> string \<Rightarrow> string list" where
  "split_js c [] = [[]]"
| "split_js c (x # xs) =
     (if x = c then [] # split_js c xs
      else (case split_js c xs of [] \<Rightarrow> [[x]] | p # ps \<Rightarrow> (x # p) # ps))"

definition is_digit :: "char \<Rightarrow> bool" where
  "is_digit ch = (48 \<le> (of_char ch :: nat) \<and> (of_char ch :: nat) \<le> 57)"

definition digit_val :: "char \<Rightarrow> nat" where
  "digit_val ch = of_char ch - 48"

definition dec :: "string \<Rightarrow> nat" where
  "dec s = foldl (\<lambda>a ch. a * 10 + digit_val ch) 0 s"

definition digits :: "string \<Rightarrow> bool" where
  "digits s = (s \<noteq> [] \<and> list_all is_digit s)"

text \<open>
  \<open>Number(s)\<close> on a string. A non-empty run of decimal digits whose value is below \<open>2^53\<close>
  is that value, which binary64 holds exactly. What the platform's string-to-number
  conversion does on every other string (longer digit runs, which it rounds or takes to
  \<open>Infinity\<close>; white space, signs, fractions, exponents, hexadecimal, text that is not
  numeric) is the parameter \<open>other\<close>.
\<close>

definition Number_js :: "(string \<Rightarrow> jsnum) \<Rightarrow> string \<Rightarrow> jsnum" where
  "Number_js other s =
     (if digits s \<and> dec s < 2 ^ 53 then Fin (of_nat (dec s)) else other s)"

section \<open>Time utilities\<close>

text \<open>
  \<^verbatim>\<open>
  function parseTime(timeStr) {
      const [h, m] = timeStr.split(':').map(Number);
      return h * 60 + m;
  }
  \<close>
  The destructuring takes the first two pieces; a missing second piece is \<open>undefined\<close>,
  and adding \<open>undefined\<close> gives \<open>NaN\<close>. Pieces after the second are ignored. The function has
  no \<open>throw\<close> and calls nothing that throws on a string.
\<close>

definition parseTime :: "(string \<Rightarrow> jsnum) \<Rightarrow> string \<Rightarrow> jsnum" where
  "parseTime other timeStr =
     (case map (Number_js other) (split_js CHR '':'' timeStr) of
        [] \<Rightarrow> NaN
      | [h] \<Rightarrow> js_add (js_mul h (Fin 60)) NaN
      | h # m # _ \<Rightarrow> js_add (js_mul h (Fin 60)) m)"

text \<open>
  \<^verbatim>\<open>
  function isInRange(minutes, start, end) {
      if (start <= end) {
          return minutes >= start && minutes < end;
      }
      return minutes >= start || minutes < end;
  }
  \<close>
\<close>

definition isInRange :: "jsnum \<Rightarrow> jsnum \<Rightarrow> jsnum \<Rightarrow> bool" where
  "isInRange minutes start end' =
     (if js_le start end' then js_ge minutes start \<and> js_lt minutes end'
      else js_ge minutes start \<or> js_lt minutes end')"

text \<open>A minute of the day as a JavaScript number.\<close>

definition minute_num :: "int \<Rightarrow> jsnum" where
  "minute_num k = Fin (of_int k)"

section \<open>Data model\<close>

text \<open>
  A participant object. \<open>priority\<close> may be absent (\<open>undefined\<close>): participants taken from a
  share link are stored as decoded, without a default.
\<close>

record participant =
  p_id :: string
  p_name :: string
  p_timezone :: string
  p_start :: string
  p_end :: string
  p_priority :: "string option"
  p_color :: string

text \<open>An entry of a slot's \<open>participants\<close> array: \<open>{ name, color, isConflict }\<close>.\<close>

record entry =
  entry_name :: string
  entry_color :: string
  isConflict :: bool

text \<open>A half-hour slot: \<open>{ count, participants, hasConflict }\<close>.\<close>

record slot =
  count :: nat
  slot_participants :: "entry list"
  hasConflict :: bool

text \<open>
  A \<open>Date\<close> object as far as the scheduler reads it: its local date string and its UTC
  calendar fields.
\<close>

record date =
  toDateString :: string
  getUTCFullYear :: int
  getUTCMonth :: int
  getUTCDate :: int

text \<open>
  The instant \<open>new Date(Date.UTC(year, month, date, 0, minutes))\<close>: the UTC calendar day
  and the minutes past its midnight.
\<close>

type_synonym instant = "int \<times> int \<times> int \<times> nat"

definition utcInstant :: "date \<Rightarrow> nat \<Rightarrow> instant" where
  "utcInstant baseDate minutes =
     (getUTCFullYear baseDate, getUTCMonth baseDate, getUTCDate baseDate, minutes)"

text \<open>
  What the scheduler asks of the platform:
  \<^item> \<open>Number_other\<close>: \<open>Number\<close> on the strings that are not plain decimal digits;
  \<^item> \<open>dateAfterDays d\<close>: the object built by \<open>new Date()\<close> followed by
    \<open>setDate(getDate() + d)\<close>; \<open>dateAfterDays 0\<close> is \<open>new Date()\<close>. One reading of the clock
    is taken for a whole call;
  \<^item> \<open>formatToParts tz t\<close>: the hour and the minute that
    \<open>new Intl.DateTimeFormat('en-GB', {hour, minute, hour12: false, timeZone: tz})
    .formatToParts(t)\<close> yields, read with \<open>parseInt\<close>; \<open>None\<close> when the expression throws
    (a time zone the platform does not know);
  \<^item> \<open>toLocaleString tz hour12 t\<close>: the formatted local time of \<open>t\<close>; \<open>None\<close> when it throws.
\<close>

record platform =
  Number_other :: "string \<Rightarrow> jsnum"
  dateAfterDays :: "nat \<Rightarrow> date"
  formatToParts :: "string \<Rightarrow> instant \<Rightarrow> (nat \<times> nat) option"
  toLocaleString :: "string \<Rightarrow> bool \<Rightarrow> instant \<Rightarrow> string option"

text \<open>
  The application state read by the scheduler. The cache object is keyed by the string
  \<open>`slots-${baseDate.toDateString()}-${JSON.stringify(ids)}`\<close>; the model keys it by the pair
  of the date string and the list of ids, which that string determines and is determined by.
\<close>

type_synonym cache_key = "string \<times> string list"

record state =
  participants :: "participant list"
  duration :: int
  days :: int
  maxSuggestions :: int
  excludeLunch :: bool
  timeFormat :: string
  cache :: "cache_key \<rightharpoonup> slot list"

section \<open>Slot grid builder\<close>

text \<open>
  The body of the inner loop of \<open>calculateSlotAvailability\<close>, for participant \<open>p\<close> and slot
  index \<open>i\<close>, as a function of the slot object it may update:
  \<^verbatim>\<open>
  const utcDate = new Date(Date.UTC(year, month, date, 0, i * 30));
  try {
      const parts = new Intl.DateTimeFormat('en-GB', {...}).formatToParts(utcDate);
      const localHour = parseInt(parts.find(x => x.type === 'hour').value);
      const localMin = parseInt(parts.find(x => x.type === 'minute').value);
      const localMinutes = localHour * 60 + localMin;
      const startMin = parseTime(p.start);
      const endMin = parseTime(p.end);
      if (state.excludeLunch) {
          const lunchStart = 12 * 60;
          const lunchEnd = 13 * 60;
          if (localMinutes >= lunchStart && localMinutes < lunchEnd) { continue; }
      }
      const isConflict = localHour < 7 || localHour >= 22;
      if (isInRange(localMinutes, startMin, endMin)) {
          slots[i].count++;
          slots[i].participants.push({ name: p.name, color: p.color, isConflict });
          if (isConflict) { slots[i].hasConflict = true; }
      }
  } catch (e) { console.error(...); }
  \<close>
\<close>

definition slotStep :: "platform \<Rightarrow> bool \<Rightarrow> date \<Rightarrow> participant \<Rightarrow> nat \<Rightarrow> slot \<Rightarrow> slot" where
  "slotStep env lunch baseDate p i s =
     (case formatToParts env (p_timezone p) (utcInstant baseDate (i * 30)) of
        None \<Rightarrow> s
      | Some (localHour, localMin) \<Rightarrow>
          (let localMinutes = localHour * 60 + localMin;
               startMin = parseTime (Number_other env) (p_start p);
               endMin = parseTime (Number_other env) (p_end p)
           in if lunch \<and> 12 * 60 \<le> localMinutes \<and> localMinutes < 13 * 60 then s
              else (let conflict = (localHour < 7 \<or> localHour \<ge> 22)
                    in if isInRange (Fin (of_nat localMinutes)) startMin endMin
                       then \<lparr>count = count s + 1,
                             slot_participants = slot_participants s @
                               [\<lparr>entry_name = p_name p, entry_color = p_color p,
                                 isConflict = conflict\<rparr>],
                             hasConflict = (if conflict then True else hasConflict s)\<rparr>
                       else s)))"

definition slotUpdate :: "platform \<Rightarrow> bool \<Rightarrow> date \<Rightarrow> participant \<Rightarrow> slot list \<Rightarrow> nat \<Rightarrow> slot list" where
  "slotUpdate env lunch baseDate p slots i =
     slots[i := slotStep env lunch baseDate p i (slots ! i)]"

definition emptySlot :: slot where
  "emptySlot = \<lparr>count = 0, slot_participants = [], hasConflict = False\<rparr>"

text \<open>
  The grid computation of \<open>calculateSlotAvailability\<close>: 48 fresh slots, then for every
  participant the loop over the 48 indices.
\<close>

definition buildSlots :: "platform \<Rightarrow> state \<Rightarrow> date \<Rightarrow> slot list" where
  "buildSlots env st baseDate =
     foldl (\<lambda>slots p. foldl (slotUpdate env (excludeLunch st) baseDate p) slots [0..<48])
       (replicate 48 emptySlot) (participants st)"

text \<open>
  \<^verbatim>\<open>
  function calculateSlotAvailability(baseDate) {
      const cacheKey = `slots-${baseDate.toDateString()}-${JSON.stringify(state.participants.map(p => p.id))}`;
      if (state.cache[cacheKey]) { return state.cache[cacheKey]; }
      ... build slots ...
      state.cache[cacheKey] = slots;
      return slots;
  }
  \<close>
  A stored grid is an array, which is truthy, so the test is a test for presence. The
  function returns the grid and the state with its cache updated.
\<close>

definition cacheKey :: "state \<Rightarrow> date \<Rightarrow> cache_key" where
  "cacheKey st baseDate = (toDateString baseDate, map p_id (participants st))"

definition calculateSlotAvailability :: "platform \<Rightarrow> state \<Rightarrow> date \<Rightarrow> slot list \<times> state" where
  "calculateSlotAvailability env st baseDate =
     (case cache st (cacheKey st baseDate) of
        Some slots \<Rightarrow> (slots, st)
      | None \<Rightarrow>
          (let slots = buildSlots env st baseDate
           in (slots, st\<lparr>cache := (cache st)(cacheKey st baseDate \<mapsto> slots)\<rparr>)))"

section \<open>Best-time ranker\<close>

text \<open>
  Reading a field of \<open>slots[k]\<close> when \<open>k\<close> is not an index of the array throws a
  \<open>TypeError\<close>; nothing in \<open>calculateBestTimes\<close> catches it.
\<close>

datatype error = TypeError

text \<open>\<open>Set.prototype.add\<close>; a \<open>Set\<close> keeps its elements in insertion order.\<close>

definition set_add :: "string list \<Rightarrow> string \<Rightarrow> string list" where
  "set_add xs x = (if x \<in> set xs then xs else xs @ [x])"

text \<open>
  The inner loop over the window, for the indices \<open>j\<close> still to visit:
  \<^verbatim>\<open>
  for (let j = 0; j < slotsNeeded; j++) {
      score += slots[i + j].count;
      slots[i + j].participants.forEach(p => availableSet.add(p.name));
  }
  \<close>
\<close>

fun scanWindow :: "slot list \<Rightarrow> nat \<Rightarrow> nat list \<Rightarrow> nat \<times> string list \<Rightarrow> error + nat \<times> string list" where
  "scanWindow slots i [] acc = Inr acc"
| "scanWindow slots i (j # js) (score, availableSet) =
     (if i + j < length slots
      then scanWindow slots i js
             (score + count (slots ! (i + j)),
              foldl set_add availableSet (map entry_name (slot_participants (slots ! (i + j)))))
      else Inl TypeError)"

text \<open>
  \<^verbatim>\<open>
  state.participants.forEach(p => {
      if (p.priority === 'required' && availableSet.has(p.name)) { requiredScore += 2; }
  });
  \<close>
\<close>

definition requiredScore :: "participant list \<Rightarrow> string list \<Rightarrow> nat" where
  "requiredScore ps availableSet =
     foldl (\<lambda>r p. if p_priority p = Some ''required'' \<and> p_name p \<in> set availableSet
                   then r + 2 else r) 0 ps"

text \<open>\<open>p.priority || 'required'\<close>: an absent or empty priority reads as \<open>'required'\<close>.\<close>

definition priorityOrRequired :: "string option \<Rightarrow> string" where
  "priorityOrRequired pr =
     (case pr of None \<Rightarrow> ''required'' | Some s \<Rightarrow> (if s = [] then ''required'' else s))"

record localTime =
  lt_name :: string
  lt_time :: string
  lt_available :: bool
  lt_color :: string
  lt_priority :: string

record suggestion =
  start :: instant
  score :: nat
  available :: "string list"
  localTimes :: "localTime list"
  day :: nat

definition localTimeOf :: "platform \<Rightarrow> state \<Rightarrow> instant \<Rightarrow> string list \<Rightarrow> participant \<Rightarrow> localTime" where
  "localTimeOf env st startDate availableSet p =
     (case toLocaleString env (p_timezone p) (timeFormat st = ''12h'') startDate of
        Some localStr \<Rightarrow>
          \<lparr>lt_name = p_name p, lt_time = localStr,
            lt_available = (p_name p \<in> set availableSet),
            lt_color = p_color p, lt_priority = priorityOrRequired (p_priority p)\<rparr>
      | None \<Rightarrow>
          \<lparr>lt_name = p_name p, lt_time = ''Error'', lt_available = False,
            lt_color = p_color p, lt_priority = priorityOrRequired (p_priority p)\<rparr>)"

text \<open>The object pushed on \<open>results\<close> for start index \<open>i\<close>.\<close>

definition mkSuggestion :: "platform \<Rightarrow> state \<Rightarrow> date \<Rightarrow> nat \<Rightarrow> nat \<Rightarrow> nat \<Rightarrow> string list \<Rightarrow> suggestion" where
  "mkSuggestion env st baseDate d i sc availableSet =
     (let startMinutes = i * 30;
          startDate = utcInstant baseDate startMinutes
      in \<lparr>start = startDate, score = sc, available = availableSet,
           localTimes = map (localTimeOf env st startDate availableSet) (participants st),
           day = d\<rparr>)"

text \<open>
  The loop over the start indices \<open>i\<close> of one day, for the indices still to visit; the
  result is what the loop pushes on \<open>results\<close>, in order.
\<close>

fun scanStarts :: "platform \<Rightarrow> state \<Rightarrow> date \<Rightarrow> nat \<Rightarrow> slot list \<Rightarrow> nat \<Rightarrow> nat list \<Rightarrow> error + suggestion list" where
  "scanStarts env st baseDate d slots slotsNeeded [] = Inr []"
| "scanStarts env st baseDate d slots slotsNeeded (i # is) =
     (case scanWindow slots i [0..<slotsNeeded] (0, []) of
        Inl e \<Rightarrow> Inl e
      | Inr (score0, availableSet) \<Rightarrow>
          (let sc = score0 + requiredScore (participants st) availableSet
           in case scanStarts env st baseDate d slots slotsNeeded is of
                Inl e \<Rightarrow> Inl e
              | Inr rest \<Rightarrow>
                  Inr (if sc > 0 then mkSuggestion env st baseDate d i sc availableSet # rest
                       else rest)))"

text \<open>What the body of the loop over \<open>i\<close> pushes for one start index: nothing or one suggestion.\<close>

definition pushedAt :: "platform \<Rightarrow> state \<Rightarrow> date \<Rightarrow> nat \<Rightarrow> slot list \<Rightarrow> nat \<Rightarrow> nat \<Rightarrow> suggestion list" where
  "pushedAt env st baseDate d slots slotsNeeded i =
     (case scanWindow slots i [0..<slotsNeeded] (0, []) of
        Inl e \<Rightarrow> []
      | Inr (score0, availableSet) \<Rightarrow>
          (let sc = score0 + requiredScore (participants st) availableSet
           in if sc > 0 then [mkSuggestion env st baseDate d i sc availableSet] else []))"

text \<open>
  The loop over the days, for the days still to visit. \<open>slotsNeeded\<close> is a JavaScript number
  that may be zero or negative: the loop over \<open>i\<close> runs while \<open>i <= 48 - slotsNeeded\<close>, the
  loop over \<open>j\<close> while \<open>j < slotsNeeded\<close>.
\<close>

fun scanDays :: "platform \<Rightarrow> state \<Rightarrow> int \<Rightarrow> nat list \<Rightarrow> error + suggestion list \<times> state" where
  "scanDays env st slotsNeeded [] = Inr ([], st)"
| "scanDays env st slotsNeeded (d # ds) =
     (let baseDate = dateAfterDays env d;
          (slots, st1) = calculateSlotAvailability env st baseDate
      in case scanStarts env st1 baseDate d slots (nat slotsNeeded) [0..<nat (49 - slotsNeeded)] of
           Inl e \<Rightarrow> Inl e
         | Inr found \<Rightarrow>
             (case scanDays env st1 slotsNeeded ds of
                Inl e \<Rightarrow> Inl e
              | Inr (rest, st2) \<Rightarrow> Inr (found @ rest, st2)))"

text \<open>\<open>xs.slice(0, n)\<close> for an integer \<open>n\<close>: a negative \<open>n\<close> counts from the end.\<close>

definition slice_js :: "'a list \<Rightarrow> int \<Rightarrow> 'a list" where
  "slice_js xs n =
     (let len = int (length xs);
          e = (if n < 0 then max (len + n) 0 else min n len)
      in take (nat e) xs)"

text \<open>\<open>Math.ceil(state.duration / 30)\<close> for an integer duration.\<close>

definition slotsNeededOf :: "int \<Rightarrow> int" where
  "slotsNeededOf dur = \<lceil>(of_int dur :: rat) / 30\<rceil>"

text \<open>
  \<^verbatim>\<open>
  function calculateBestTimes() {
      const results = [];
      const slotsNeeded = Math.ceil(state.duration / 30);
      for (let day = 0; day < state.days; day++) { ... }
      results.sort((a, b) => b.score - a.score);
      return results.slice(0, state.maxSuggestions);
  }
  \<close>
  \<open>Array.prototype.sort\<close> is stable; so is \<open>sort_key\<close>.
\<close>

definition calculateBestTimes :: "platform \<Rightarrow> state \<Rightarrow> error + suggestion list \<times> state" where
  "calculateBestTimes env st =
     (let slotsNeeded = slotsNeededOf (duration st)
      in case scanDays env st slotsNeeded [0..<nat (days st)] of
           Inl e \<Rightarrow> Inl e
         | Inr (results, st') \<Rightarrow>
             Inr (slice_js (sort_key (\<lambda>s. - int (score s)) results) (maxSuggestions st), st'))"

text \<open>
  The state in which the loop body of \<open>calculateBestTimes\<close> runs for day \<open>d\<close> (the cache
  holds what the earlier days stored), and the grid the body obtains for that day.
\<close>

fun stateAtDay :: "platform \<Rightarrow> state \<Rightarrow> nat \<Rightarrow> state" where
  "stateAtDay env st 0 = st"
| "stateAtDay env st (Suc k) =
     snd (calculateSlotAvailability env (stateAtDay env st k) (dateAfterDays env k))"

definition gridOfDay :: "platform \<Rightarrow> state \<Rightarrow> nat \<Rightarrow> slot list" where
  "gridOfDay env st d =
     fst (calculateSlotAvailability env (stateAtDay env st d) (dateAfterDays env d))"

text \<open>The names listed in a slot, and the slots of the window that starts at index \<open>i\<close>.\<close>

definition namesOf :: "slot \<Rightarrow> string set" where
  "namesOf s = set (map entry_name (slot_participants s))"

definition windowSlots :: "slot list \<Rightarrow> nat \<Rightarrow> nat \<Rightarrow> slot list" where
  "windowSlots slots i n = map (\<lambda>j. slots ! (i + j)) [0..<n]"

definition inEverySlot :: "slot list \<Rightarrow> string \<Rightarrow> bool" where
  "inEverySlot window nm = list_all (\<lambda>s. nm \<in> namesOf s) window"

definition inSomeSlot :: "slot list \<Rightarrow> string \<Rightarrow> bool" where
  "inSomeSlot window nm = list_ex (\<lambda>s. nm \<in> namesOf s) window"

section \<open>Compatibility score\<close>

text \<open>
  A count or a length as a number. Counts and lengths are below \<open>2^32\<close> (an array has fewer
  than \<open>2^32\<close> elements), so they are binary64 values.
\<close>

definition js_int :: "nat \<Rightarrow> jsnum" where
  "js_int n = Fin (of_nat n)"

text \<open>
  \<^verbatim>\<open>
  function calculateTimezoneCompatibility() {
      if (state.participants.length < 2) return 0;
      const baseDate = new Date();
      const slots = calculateSlotAvailability(baseDate);
      const avgAvailability = slots.reduce((sum, slot) => sum + slot.count, 0) / slots.length;
      const maxPossible = state.participants.length;
      const goldenThreshold = Math.ceil(state.participants.length * 0.8);
      const goldenSlots = slots.filter(s => s.count >= goldenThreshold).length;
      const avgScore = (avgAvailability / maxPossible) * 60;
      const goldenScore = (goldenSlots / 48) * 40;
      return Math.round(avgScore + goldenScore);
  }
  \<close>
  Every arithmetic operation rounds its exact result to binary64; the literal \<open>0.8\<close> is the
  binary64 value nearest to four fifths.
\<close>

definition calculateTimezoneCompatibility :: "platform \<Rightarrow> state \<Rightarrow> jsnum \<times> state" where
  "calculateTimezoneCompatibility env st =
     (if length (participants st) < 2 then (Fin 0, st)
      else
        (let baseDate = dateAfterDays env 0;
             (slots, st1) = calculateSlotAvailability env st baseDate;
             avgAvailability =
               js_div (foldl (\<lambda>sum slot. js_add sum (js_int (count slot))) (Fin 0) slots)
                 (js_int (length slots));
             maxPossible = js_int (length (participants st));
             goldenThreshold = Math_ceil (js_mul (js_int (length (participants st))) (js_num (4 / 5)));
             goldenSlots = length (filter (\<lambda>s. js_ge (js_int (count s)) goldenThreshold) slots);
             avgScore = js_mul (js_div avgAvailability maxPossible) (Fin 60);
             goldenScore = js_mul (js_div (js_int goldenSlots) (Fin 48)) (Fin 40)
         in (Math_round_js (js_add avgScore goldenScore), st1)))"

text \<open>
  The quantities the score is worded with: the sum of the slot counts, and the number of
  golden slots, those whose count is at least the ceiling of four fifths of the number of
  participants.
\<close>

definition countSum :: "slot list \<Rightarrow> nat" where
  "countSum slots = sum_list (map count slots)"

definition goldenCount :: "slot list \<Rightarrow> nat \<Rightarrow> nat" where
  "goldenCount slots n =
     length (filter (\<lambda>s. \<lceil>4 * (of_nat n :: rat) / 5\<rceil> \<le> int (count s)) slots)"

text \<open>
  The worded formula \<open>round((mean / n) * 60 + (goldenSlots / 48) * 40)\<close>, the mean being
  the sum \<open>S\<close> over 48: once with every operation rounded to binary64, in the order in which
  the code performs them, and once in exact arithmetic.
\<close>

definition compat_b64 :: "nat \<Rightarrow> nat \<Rightarrow> nat \<Rightarrow> int" where
  "compat_b64 S n G =
     Math_round (fl (fl (fl (fl (of_nat S / 48) / of_nat n) * 60) + fl (fl (of_nat G / 48) * 40)))"

definition compat_exact :: "nat \<Rightarrow> nat \<Rightarrow> nat \<Rightarrow> int" where
  "compat_exact S n G =
     Math_round (((of_nat S / 48) / of_nat n) * 60 + (of_nat G / 48) * 40)"

text \<open>A cache in which no slot counts more participants than the key of its grid has ids.\<close>

definition cache_counts_ok :: "(cache_key \<rightharpoonup> slot list) \<Rightarrow> bool" where
  "cache_counts_ok c =
     (\<forall>ds ids g. c (ds, ids) = Some g \<longrightarrow> list_all (\<lambda>s. count s \<le> length ids) g)"

section \<open>Worst-overlapping pairs\<close>

text \<open>
  The body of the loop of \<open>calculatePairOverlap\<close> for slot \<open>i\<close>: whether \<open>overlapSlots++\<close>
  runs. Both zones are projected first; when either projection throws, the \<open>catch\<close> skips
  the slot.
  \<^verbatim>\<open>
  const local1 = parseInt(parts1.find(x => x.type === 'hour').value) * 60 +
      parseInt(parts1.find(x => x.type === 'minute').value);
  const local2 = ...;
  const start1 = parseTime(p1.start); const end1 = parseTime(p1.end);
  const start2 = parseTime(p2.start); const end2 = parseTime(p2.end);
  if (isInRange(local1, start1, end1) && isInRange(local2, start2, end2)) { overlapSlots++; }
  \<close>
\<close>

definition pairSlot :: "platform \<Rightarrow> date \<Rightarrow> participant \<Rightarrow> participant \<Rightarrow> nat \<Rightarrow> bool" where
  "pairSlot env baseDate p1 p2 i =
     (let utcDate = utcInstant baseDate (i * 30)
      in case formatToParts env (p_timezone p1) utcDate of
           None \<Rightarrow> False
         | Some (h1, m1) \<Rightarrow>
             (case formatToParts env (p_timezone p2) utcDate of
                None \<Rightarrow> False
              | Some (h2, m2) \<Rightarrow>
                  (let local1 = h1 * 60 + m1;
                       local2 = h2 * 60 + m2;
                       start1 = parseTime (Number_other env) (p_start p1);
                       end1 = parseTime (Number_other env) (p_end p1);
                       start2 = parseTime (Number_other env) (p_start p2);
                       end2 = parseTime (Number_other env) (p_end p2)
                   in isInRange (Fin (of_nat local1)) start1 end1 \<and>
                      isInRange (Fin (of_nat local2)) start2 end2)))"

text \<open>
  \<^verbatim>\<open>
  function calculatePairOverlap(p1, p2) {
      const baseDate = new Date();
      ...
      let overlapSlots = 0;
      for (let i = 0; i < 48; i++) { ... }
      return Math.round((overlapSlots * 0.5) * 10) / 10;
  }
  \<close>
  With at most 48 slots every step of the last line is exact in double arithmetic (halves,
  integers below 241, and a half again), so rational arithmetic gives the same value.
\<close>

definition calculatePairOverlap :: "platform \<Rightarrow> participant \<Rightarrow> participant \<Rightarrow> rat" where
  "calculatePairOverlap env p1 p2 =
     (let baseDate = dateAfterDays env 0;
          overlapSlots = foldl (\<lambda>n i. if pairSlot env baseDate p1 p2 i then n + 1 else n)
                           (0::nat) [0..<48]
      in of_int (Math_round ((of_nat overlapSlots * (1 / 2)) * 10)) / 10)"

record pair =
  pair_p1 :: string
  pair_p2 :: string
  overlap :: rat

text \<open>The inner loop of \<open>findWorstTimezonePairs\<close> over \<open>j\<close>, for a fixed \<open>i\<close>: the pairs it pushes.\<close>

definition pairsFrom :: "platform \<Rightarrow> participant list \<Rightarrow> nat \<Rightarrow> pair list" where
  "pairsFrom env ps i =
     concat (map (\<lambda>j. let p1 = ps ! i; p2 = ps ! j;
                          ov = calculatePairOverlap env p1 p2
                      in if ov < 3
                         then [\<lparr>pair_p1 = p_name p1, pair_p2 = p_name p2, overlap = ov\<rparr>]
                         else [])
               [i + 1..<length ps])"

text \<open>
  \<^verbatim>\<open>
  function findWorstTimezonePairs() {
      if (state.participants.length < 2) return [];
      const pairs = [];
      for (let i = 0; i < state.participants.length; i++) {
          for (let j = i + 1; j < state.participants.length; j++) { ... }
      }
      return pairs.sort((a, b) => a.overlap - b.overlap).slice(0, 3);
  }
  \<close>
\<close>

definition findWorstTimezonePairs :: "platform \<Rightarrow> state \<Rightarrow> pair list" where
  "findWorstTimezonePairs env st =
     (if length (participants st) < 2 then []
      else slice_js
             (sort_key overlap
                (concat (map (pairsFrom env (participants st))
                           [0..<length (participants st)])))
             3)"

text \<open>
  The overlap of a pair as the specification words it: the number of the 48 half-hour
  slots of today in which both participants are within their own windows, halved. A
  participant whose zone cannot be projected is within no window.
\<close>

definition withinWindow :: "platform \<Rightarrow> date \<Rightarrow> participant \<Rightarrow> nat \<Rightarrow> bool" where
  "withinWindow env baseDate p i =
     (case formatToParts env (p_timezone p) (utcInstant baseDate (i * 30)) of
        None \<Rightarrow> False
      | Some (h, m) \<Rightarrow>
          isInRange (Fin (of_nat (h * 60 + m)))
            (parseTime (Number_other env) (p_start p)) (parseTime (Number_other env) (p_end p)))"

definition bothWithinCount :: "platform \<Rightarrow> participant \<Rightarrow> participant \<Rightarrow> nat" where
  "bothWithinCount env p1 p2 =
     length (filter (\<lambda>i. withinWindow env (dateAfterDays env 0) p1 i \<and>
                         withinWindow env (dateAfterDays env 0) p2 i) [0..<48])"

definition overlapHours :: "platform \<Rightarrow> participant \<Rightarrow> participant \<Rightarrow> rat" where
  "overlapHours env p1 p2 = of_nat (bothWithinCount env p1 p2) / 2"

text \<open>
  The pairs as the specification words them: every unordered pair of positions, in the
  order \<open>i\<close> ascending and then \<open>j\<close> ascending, those with an overlap below 3 hours kept.
\<close>

definition indexPairs :: "nat \<Rightarrow> (nat \<times> nat) list" where
  "indexPairs n = concat (map (\<lambda>i. map (\<lambda>j. (i, j)) [Suc i..<n]) [0..<n])"

definition pairEntry :: "platform \<Rightarrow> participant list \<Rightarrow> nat \<times> nat \<Rightarrow> pair" where
  "pairEntry env ps ij =
     \<lparr>pair_p1 = p_name (ps ! fst ij), pair_p2 = p_name (ps ! snd ij),
      overlap = overlapHours env (ps ! fst ij) (ps ! snd ij)\<rparr>"

definition lowPairs :: "platform \<Rightarrow> participant list \<Rightarrow> pair list" where
  "lowPairs env ps =
     filter (\<lambda>e. overlap e < 3) (map (pairEntry env ps) (indexPairs (length ps)))"

section \<open>The time format the specification asks for\<close>

text \<open>
  A well-formed local time: two pieces separated by one colon, both decimal integers, the
  first at most 23 and the second at most 59. \<open>parseLocalTime_spec\<close> is the parser as the
  specification words it, failing with \<open>InvalidFormat\<close> on anything else.
\<close>

datatype parse_error = InvalidFormat

definition validTime :: "string \<Rightarrow> bool" where
  "validTime s =
     (case split_js CHR '':'' s of
        [h, m] \<Rightarrow> digits h \<and> digits m \<and> dec h \<le> 23 \<and> dec m \<le> 59
      | _ \<Rightarrow> False)"

definition parseLocalTime_spec :: "string \<Rightarrow> parse_error + nat" where
  "parseLocalTime_spec s =
     (case split_js CHR '':'' s of
        [h, m] \<Rightarrow>
          (if digits h \<and> digits m \<and> dec h \<le> 23 \<and> dec m \<le> 59
           then Inr (dec h * 60 + dec m) else Inl InvalidFormat)
      | _ \<Rightarrow> Inl InvalidFormat)"

section \<open>Well-formed slots\<close>

definition slot_ok :: "slot \<Rightarrow> bool" where
  "slot_ok s =
     (count s = length (slot_participants s) \<and>
      (hasConflict s \<longleftrightarrow> list_ex isConflict (slot_participants s)))"

text \<open>A cache that holds only grids of 48 well-formed slots.\<close>

definition cache_ok :: "(cache_key \<rightharpoonup> slot list) \<Rightarrow> bool" where
  "cache_ok c = (\<forall>k g. c k = Some g \<longrightarrow> length g = 48 \<and> list_all slot_ok g)"

section \<open>A concrete platform and concrete inputs\<close>

text \<open>
  \<open>Number\<close> on plain decimal text, for the concrete platform: white space around the text
  is dropped; the empty text is 0; an optional sign, digits and an optional fraction give
  the binary64 value nearest to the decimal value, or an infinity. Exponents, the
  hexadecimal, octal and binary forms and the word \<open>Infinity\<close> are left out: this platform
  answers \<open>NaN\<close> for them, and nothing below asks it about them.
\<close>

definition is_space :: "char \<Rightarrow> bool" where
  "is_space ch = ((of_char ch :: nat) \<in> {9, 10, 11, 12, 13, 32})"

definition trim :: "string \<Rightarrow> string" where
  "trim s = rev (dropWhile is_space (rev (dropWhile is_space s)))"

definition unsigned_decimal :: "string \<Rightarrow> rat option" where
  "unsigned_decimal s =
     (case split_js CHR ''.'' s of
        [a] \<Rightarrow> (if digits a then Some (of_nat (dec a)) else None)
      | [a, b] \<Rightarrow>
          (if (a = [] \<or> digits a) \<and> (b = [] \<or> digits b) \<and> \<not> (a = [] \<and> b = [])
           then Some (of_nat (dec a) + of_nat (dec b) / 10 ^ length b)
           else None)
      | _ \<Rightarrow> None)"

definition Number_plain :: "string \<Rightarrow> jsnum" where
  "Number_plain s =
     (let t = trim s
      in if t = [] then Fin 0
         else (case t of
                 ch # rest \<Rightarrow>
                   (if ch = CHR ''-''
                    then (case unsigned_decimal rest of None \<Rightarrow> NaN | Some v \<Rightarrow> js_num (- v))
                    else if ch = CHR ''+''
                    then (case unsigned_decimal rest of None \<Rightarrow> NaN | Some v \<Rightarrow> js_num v)
                    else (case unsigned_decimal t of None \<Rightarrow> NaN | Some v \<Rightarrow> js_num v))
               | [] \<Rightarrow> Fin 0))"

text \<open>
  A platform in which every zone is UTC: the local clock of an instant is its UTC clock.
  Day \<open>d\<close> from now is the \<open>d\<close>-th day after 2 November 2026.
\<close>

definition utc_env :: platform where
  "utc_env =
     \<lparr>Number_other = Number_plain,
      dateAfterDays = (\<lambda>d. \<lparr>toDateString = ''day '' @ replicate d CHR ''I'',
                              getUTCFullYear = 2026, getUTCMonth = 10,
                              getUTCDate = 2 + int d\<rparr>),
      formatToParts = (\<lambda>tz (y, m, d, mins). Some (mins div 60, mins mod 60)),
      toLocaleString = (\<lambda>tz h12 (y, m, d, mins). Some ''--:--'')\<rparr>"

definition today :: date where
  "today = dateAfterDays utc_env 0"

text \<open>A participant available from 09:00 to 17:00, required.\<close>

definition alice :: participant where
  "alice = \<lparr>p_id = ''a1'', p_name = ''Alice'', p_timezone = ''UTC'',
             p_start = ''09:00'', p_end = ''17:00'',
             p_priority = Some ''required'', p_color = ''#14b8a6''\<rparr>"

definition state_alice :: state where
  "state_alice =
     \<lparr>participants = [alice], duration = 60, days = 1, maxSuggestions = 5,
      excludeLunch = False, timeFormat = ''12h'', cache = Map.empty\<rparr>"

text \<open>
  A participant available from 09:00 to 09:30 only, required; and the same window for a
  participant whose \<open>priority\<close> field is absent.
\<close>

definition bob :: participant where
  "bob = \<lparr>p_id = ''b2'', p_name = ''Bob'', p_timezone = ''UTC'',
           p_start = ''09:00'', p_end = ''09:30'',
           p_priority = Some ''required'', p_color = ''#06b6d4''\<rparr>"

definition carol :: participant where
  "carol = \<lparr>p_id = ''c3'', p_name = ''Carol'', p_timezone = ''UTC'',
             p_start = ''09:00'', p_end = ''09:30'',
             p_priority = None, p_color = ''#8b5cf6''\<rparr>"

text \<open>A one-hour meeting with Bob; a half-hour meeting with Carol.\<close>

definition state_bob :: state where
  "state_bob =
     \<lparr>participants = [bob], duration = 60, days = 1, maxSuggestions = 5,
      excludeLunch = False, timeFormat = ''12h'', cache = Map.empty\<rparr>"

definition state_carol :: state where
  "state_carol =
     \<lparr>participants = [carol], duration = 30, days = 1, maxSuggestions = 5,
      excludeLunch = False, timeFormat = ''12h'', cache = Map.empty\<rparr>"

text \<open>The suggestions of the two meetings: Bob's hour starting at a given minute, Carol's half hour.\<close>

definition bob_at :: "nat \<Rightarrow> suggestion" where
  "bob_at minutes =
     \<lparr>start = (2026, 10, 2, minutes), score = 3, available = [''Bob''],
      localTimes = [\<lparr>lt_name = ''Bob'', lt_time = ''--:--'', lt_available = True,
                     lt_color = ''#06b6d4'', lt_priority = ''required''\<rparr>],
      day = 0\<rparr>"

definition carol_at_0900 :: suggestion where
  "carol_at_0900 =
     \<lparr>start = (2026, 10, 2, 540), score = 1, available = [''Carol''],
      localTimes = [\<lparr>lt_name = ''Carol'', lt_time = ''--:--'', lt_available = True,
                     lt_color = ''#8b5cf6'', lt_priority = ''required''\<rparr>],
      day = 0\<rparr>"

text \<open>Alice after an edit of her start time to 10:00; the edit keeps her id.\<close>

definition alice_edited :: participant where
  "alice_edited = alice\<lparr>p_start := ''10:00''\<rparr>"

text \<open>Alice and Bob together.\<close>

definition state_alice_bob :: state where
  "state_alice_bob =
     \<lparr>participants = [alice, bob], duration = 60, days = 1, maxSuggestions = 5,
      excludeLunch = False, timeFormat = ''12h'', cache = Map.empty\<rparr>"

text \<open>
  Erin, available from 09:00 to 16:00, and Dave, available from 22:00 to 06:00 across
  midnight; Bob, Carol and Erin together; Alice, Bob, Erin and Dave together.
\<close>

definition erin :: participant where
  "erin = \<lparr>p_id = ''e5'', p_name = ''Erin'', p_timezone = ''UTC'',
            p_start = ''09:00'', p_end = ''16:00'',
            p_priority = Some ''optional'', p_color = ''#f59e0b''\<rparr>"

definition dave :: participant where
  "dave = \<lparr>p_id = ''d4'', p_name = ''Dave'', p_timezone = ''UTC'',
            p_start = ''22:00'', p_end = ''06:00'',
            p_priority = Some ''optional'', p_color = ''#ec4899''\<rparr>"

definition state_three :: state where
  "state_three =
     \<lparr>participants = [bob, carol, erin], duration = 60, days = 1, maxSuggestions = 5,
      excludeLunch = False, timeFormat = ''12h'', cache = Map.empty\<rparr>"

definition state_four :: state where
  "state_four =
     \<lparr>participants = [alice, bob, erin, dave], duration = 60, days = 1, maxSuggestions = 5,
      excludeLunch = False, timeFormat = ''12h'', cache = Map.empty\<rparr>"

text \<open>
  The slot counts of today's grid for Bob, Carol and Erin: all three at 09:00, Erin alone
  from 09:30 to 16:00.
\<close>

definition counts_three :: "nat \<Rightarrow> nat" where
  "counts_three i = (if i = 18 then 3 else if 18 \<le> i \<and> i < 32 then 1 else 0)"

section \<open>Rounding to binary64\<close>

lemma pow2_less_iff: "(2::rat) powi a < 2 powi b \<longleftrightarrow> a < b"
proof
  assume l: "(2::rat) powi a < 2 powi b"
  show "a < b"
  proof (rule ccontr)
    assume "\<not> a < b"
    then have "b \<le> a" by simp
    then have "(2::rat) powi b \<le> 2 powi a" by (intro power_int_increasing) simp_all
    with l show False by simp
  qed
next
  assume "a < b"
  then show "(2::rat) powi a < 2 powi b" by (intro power_int_strict_increasing) simp_all
qed

lemma pow2_le_iff: "(2::rat) powi a \<le> 2 powi b \<longleftrightarrow> a \<le> b"
  using pow2_less_iff [of b a] by (auto simp: not_less [symmetric])

lemma pow2_split: "(2::rat) powi (a - b) = 2 powi a / 2 powi b"
  by (rule power_int_diff) simp

lemma pow2_add: "(2::rat) powi (a + b) = 2 powi a * 2 powi b"
  by (rule power_int_add) simp

lemma bitlen_pow2_bounds:
  assumes "0 < p"
  shows "(2::rat) powi (bitlen p - 1) \<le> of_int p" and "of_int p < (2::rat) powi bitlen p"
proof -
  from assms have b1: "1 \<le> bitlen p"
    using bitlen_nonneg [of p] bitlen_eq_zero_iff [of p] by linarith
  from bitlen_bounds [OF assms] have lo: "2 ^ nat (bitlen p - 1) \<le> p" and hi: "p < 2 ^ nat (bitlen p)"
    by simp_all
  have "(2::rat) powi (bitlen p - 1) = of_int (2 ^ nat (bitlen p - 1))"
    using b1 by (simp add: power_int_nonneg_exp)
  also have "\<dots> \<le> of_int p" using lo by (simp only: of_int_le_iff)
  finally show "(2::rat) powi (bitlen p - 1) \<le> of_int p" .
  have "(of_int p :: rat) < of_int (2 ^ nat (bitlen p))" using hi by (simp only: of_int_less_iff)
  also have "\<dots> = (2::rat) powi bitlen p"
    using b1 by (simp add: power_int_nonneg_exp)
  finally show "of_int p < (2::rat) powi bitlen p" .
qed

lemma expo_bounds:
  assumes "x \<noteq> 0"
  shows "2 powi expo x \<le> \<bar>x\<bar>" and "\<bar>x\<bar> < 2 powi (expo x + 1)"
proof -
  obtain p q where pq: "quotient_of \<bar>x\<bar> = (p, q)"
    by (cases "quotient_of \<bar>x\<bar>")
  have q: "0 < q" using quotient_of_denom_pos [OF pq] .
  have x: "\<bar>x\<bar> = of_int p / of_int q" using quotient_of_div [OF pq] .
  from assms have "0 < \<bar>x\<bar>" by simp
  with x q have p: "0 < p" by (simp add: zero_less_divide_iff)
  define k where "k = bitlen p - bitlen q"
  have qr: "(0::rat) < of_int q" using q by simp
  have lo: "2 powi (k - 1) < \<bar>x\<bar>"
  proof -
    have "(2::rat) powi (bitlen p - 1) * of_int q < of_int p * 2 powi bitlen q"
      using bitlen_pow2_bounds(1) [OF p] bitlen_pow2_bounds(2) [OF q] qr
      by (intro mult_le_less_imp_less) simp_all
    then have "(2::rat) powi (bitlen p - 1) / 2 powi bitlen q < of_int p / of_int q"
      using qr by (simp add: field_simps)
    moreover have "(2::rat) powi (k - 1) = 2 powi (bitlen p - 1) / 2 powi bitlen q"
      unfolding k_def using pow2_split [of "bitlen p - 1" "bitlen q"] by (simp add: algebra_simps)
    ultimately show ?thesis using x by simp
  qed
  have hi: "\<bar>x\<bar> < 2 powi (k + 1)"
  proof -
    have "of_int p * (2::rat) powi (bitlen q - 1) < 2 powi bitlen p * of_int q"
      using bitlen_pow2_bounds(2) [OF p] bitlen_pow2_bounds(1) [OF q] p
      by (intro mult_less_le_imp_less) simp_all
    then have "of_int p / of_int q < (2::rat) powi bitlen p / 2 powi (bitlen q - 1)"
      using qr by (simp add: field_simps)
    moreover have "(2::rat) powi (k + 1) = 2 powi bitlen p / 2 powi (bitlen q - 1)"
      unfolding k_def using pow2_split [of "bitlen p" "bitlen q - 1"] by (simp add: algebra_simps)
    ultimately show ?thesis using x by simp
  qed
  have e: "expo x = (if 2 powi k \<le> \<bar>x\<bar> then k else k - 1)"
    by (simp add: expo_def pq k_def Let_def)
  show "2 powi expo x \<le> \<bar>x\<bar>"
    using lo by (auto simp: e)
  show "\<bar>x\<bar> < 2 powi (expo x + 1)"
    using hi by (auto simp: e)
qed

lemma expo_unique:
  assumes "2 powi e \<le> \<bar>x\<bar>" and "\<bar>x\<bar> < 2 powi (e + 1)"
  shows "expo x = e"
proof -
  have "(0::rat) < 2 powi e" by simp
  with assms(1) have "0 < \<bar>x\<bar>" by linarith
  then have nz: "x \<noteq> 0" by simp
  from expo_bounds [OF nz] assms have "(2::rat) powi expo x < 2 powi (e + 1)" "(2::rat) powi e < 2 powi (expo x + 1)"
    by simp_all
  then show ?thesis
    by (simp add: pow2_less_iff)
qed

lemma expo_mono:
  assumes "0 < x" and "x \<le> y"
  shows "expo x \<le> expo y"
proof -
  from assms have nz: "x \<noteq> 0" "y \<noteq> 0" by simp_all
  from expo_bounds(1) [OF nz(1)] expo_bounds(2) [OF nz(2)] assms
  have "(2::rat) powi expo x < 2 powi (expo y + 1)" by simp
  then show ?thesis by (simp add: pow2_less_iff)
qed


lemma rhe_of_int: "rhe (of_int n) = n"
  by (simp add: rhe_def)

lemma rhe_le: "x \<le> of_int n \<Longrightarrow> rhe x \<le> n"
proof -
  assume a: "x \<le> of_int n"
  have "rhe x \<le> \<lfloor>x\<rfloor> \<or> (rhe x = \<lfloor>x\<rfloor> + 1 \<and> x \<noteq> of_int \<lfloor>x\<rfloor>)"
    by (auto simp: rhe_def Let_def)
  moreover have "\<lfloor>x\<rfloor> \<le> n" using a by (simp add: floor_le_iff)
  moreover have "\<lfloor>x\<rfloor> + 1 \<le> n" if "x \<noteq> of_int \<lfloor>x\<rfloor>"
  proof -
    have "of_int \<lfloor>x\<rfloor> < x"
      by (metis that le_neq_trans of_int_floor_le)
    from this a have "(of_int \<lfloor>x\<rfloor> :: rat) < of_int n" by (rule less_le_trans)
    then show ?thesis by simp
  qed
  ultimately show ?thesis by auto
qed

lemma rhe_ge: "of_int n \<le> x \<Longrightarrow> n \<le> rhe x"
proof -
  assume "of_int n \<le> x"
  then have "n \<le> \<lfloor>x\<rfloor>" by (simp add: le_floor_iff)
  moreover have "\<lfloor>x\<rfloor> \<le> rhe x" by (simp add: rhe_def Let_def)
  ultimately show ?thesis by simp
qed

lemma quantum_pos: "0 < quantum x"
  by (simp add: quantum_def)

lemma fl_nonneg: "0 \<le> x \<Longrightarrow> 0 \<le> fl x"
proof -
  assume "0 \<le> x"
  then have "(of_int 0 :: rat) \<le> x / quantum x"
    using quantum_pos [of x] by simp
  from rhe_ge [OF this] show ?thesis
    using quantum_pos [of x] by (simp add: fl_def)
qed

text \<open>
  A value \<open>M * 2 powi j\<close> with \<open>\<bar>M\<bar> < 2^53\<close> and \<open>j\<close> no less than \<open>-1074\<close> is a binary64
  value. Rounding keeps it, and rounding does not cross it.
\<close>

lemma quantum_divides:
  assumes "x \<noteq> 0" and "\<bar>x\<bar> \<le> of_int M * 2 powi j" and "M < 2 ^ 53" and "- 1074 \<le> j"
  shows "max (expo x) (- 1022) - 52 \<le> j"
proof -
  have "(2::rat) powi expo x \<le> of_int M * 2 powi j"
    using expo_bounds(1) [OF assms(1)] assms(2) by simp
  also have "\<dots> < 2 ^ 53 * 2 powi j"
  proof -
    have "(of_int M :: rat) < of_int (2 ^ 53)" using assms(3) by (simp only: of_int_less_iff)
    then show ?thesis by (intro mult_strict_right_mono) simp_all
  qed
  also have "\<dots> = 2 powi (53 + j)"
    by (simp add: pow2_add)
  finally have "expo x < 53 + j" by (simp add: pow2_less_iff)
  with assms(4) show ?thesis by simp
qed

lemma over_quantum:
  assumes "t \<le> j"
  shows "of_int M * 2 powi j / 2 powi t = (of_int (M * 2 ^ nat (j - t)) :: rat)"
proof -
  have "(2::rat) powi j / 2 powi t = 2 powi (j - t)" by (simp add: pow2_split)
  also have "\<dots> = 2 ^ nat (j - t)" using assms by (simp add: power_int_nonneg_exp)
  finally have e: "(2::rat) powi j / 2 powi t = 2 ^ nat (j - t)" .
  have "of_int M * 2 powi j / 2 powi t = of_int M * ((2::rat) powi j / 2 powi t)" by simp
  also have "\<dots> = of_int M * 2 ^ nat (j - t)" by (simp only: e)
  also have "\<dots> = of_int (M * 2 ^ nat (j - t))" by simp
  finally show ?thesis .
qed

lemma fl_repr:
  assumes "\<bar>M\<bar> < 2 ^ 53" and "- 1074 \<le> j"
  shows "fl (of_int M * 2 powi j) = of_int M * 2 powi j"
proof (cases "M = 0")
  case True
  then show ?thesis by (simp add: fl_def)
next
  case False
  let ?x = "of_int M * (2::rat) powi j"
  have nz: "?x \<noteq> 0" using False by simp
  have "\<bar>?x\<bar> = of_int \<bar>M\<bar> * 2 powi j" by (simp add: abs_mult)
  then have "\<bar>?x\<bar> \<le> of_int \<bar>M\<bar> * 2 powi j" by simp
  from quantum_divides [OF nz this assms] have t: "max (expo ?x) (- 1022) - 52 \<le> j" .
  have "?x / quantum ?x = of_int (M * 2 ^ nat (j - (max (expo ?x) (- 1022) - 52)))"
    unfolding quantum_def by (rule over_quantum [OF t])
  then have "of_int (rhe (?x / quantum ?x)) * quantum ?x = ?x / quantum ?x * quantum ?x"
    by (simp only: rhe_of_int)
  also have "\<dots> = ?x" using quantum_pos [of ?x] by simp
  finally show ?thesis using nz by (simp add: fl_def)
qed

lemma fl_upper:
  assumes "0 < x" and "x \<le> of_int M * 2 powi j" and "M < 2 ^ 53" and "- 1074 \<le> j"
  shows "fl x \<le> of_int M * 2 powi j"
proof -
  from assms(1) have nz: "x \<noteq> 0" and ax: "\<bar>x\<bar> = x" by simp_all
  from quantum_divides [OF nz _ assms(3,4)] assms(2) ax
  have t: "max (expo x) (- 1022) - 52 \<le> j" by simp
  have "x / quantum x \<le> of_int M * 2 powi j / quantum x"
    using assms(2) quantum_pos [of x] by (simp add: divide_right_mono)
  also have "\<dots> = of_int (M * 2 ^ nat (j - (max (expo x) (- 1022) - 52)))"
    unfolding quantum_def by (rule over_quantum [OF t])
  finally have "rhe (x / quantum x) \<le> M * 2 ^ nat (j - (max (expo x) (- 1022) - 52))"
    by (rule rhe_le)
  then have "(of_int (rhe (x / quantum x)) :: rat) \<le> of_int (M * 2 ^ nat (j - (max (expo x) (- 1022) - 52)))"
    by (simp only: of_int_le_iff)
  then have "of_int (rhe (x / quantum x)) * quantum x \<le>
        of_int (M * 2 ^ nat (j - (max (expo x) (- 1022) - 52))) * quantum x"
    using quantum_pos [of x] by (simp only: mult_le_cancel_right) simp
  also have "\<dots> = of_int M * 2 powi j / quantum x * quantum x"
    unfolding quantum_def by (simp only: over_quantum [OF t])
  also have "\<dots> = of_int M * 2 powi j" using quantum_pos [of x] by simp
  finally show ?thesis using nz by (simp add: fl_def)
qed


lemma fl_of_nat: "n < 2 ^ 53 \<Longrightarrow> fl (of_nat n) = of_nat n"
proof -
  assume "n < 2 ^ 53"
  then have "\<bar>int n\<bar> < 2 ^ 53"
    by (metis abs_of_nat of_nat_less_numeral_power_cancel_iff)
  from fl_repr [OF this, of 0] show ?thesis by simp
qed

lemma big_pow: "(2::rat) ^ 53 \<le> 2 ^ 1024"
  by (rule power_increasing) simp_all

text \<open>A value that rounding leaves between 0 and \<open>2^53\<close> is finite.\<close>

lemma js_num_Fin: "0 \<le> fl x \<Longrightarrow> fl x < 2 ^ 53 \<Longrightarrow> js_num x = Fin (fl x)"
proof -
  assume a: "0 \<le> fl x" "fl x < 2 ^ 53"
  from a(2) big_pow have "fl x < 2 ^ 1024" by (rule less_le_trans)
  moreover have "- ((2::rat) ^ 1024) < 0" by simp
  ultimately show ?thesis
    using a(1) unfolding js_num_def Let_def by (simp only: not_le [symmetric] if_False) auto
qed

lemma js_num_of_nat: "n < 2 ^ 53 \<Longrightarrow> js_num (of_nat n) = Fin (of_nat n)"
proof -
  assume n: "n < 2 ^ 53"
  then have "(of_nat n :: rat) < 2 ^ 53"
    by (metis of_nat_less_numeral_power_cancel_iff)
  with fl_of_nat [OF n] js_num_Fin [of "of_nat n"] show ?thesis by simp
qed

text \<open>Arithmetic on natural numbers that stay below \<open>2^53\<close> is exact.\<close>

lemma js_add_nat: "a + b < 2 ^ 53 \<Longrightarrow> js_add (Fin (of_nat a)) (Fin (of_nat b)) = Fin (of_nat (a + b))"
  using js_num_of_nat [of "a + b"] by simp

lemma js_mul_nat: "a * b < 2 ^ 53 \<Longrightarrow> js_mul (Fin (of_nat a)) (Fin (of_nat b)) = Fin (of_nat (a * b))"
  using js_num_of_nat [of "a * b"] by simp


lemma fl_lower:
  assumes "0 < of_int M * (2::rat) powi j" and "of_int M * 2 powi j \<le> x"
    and "M < 2 ^ 53" and "- 1074 \<le> j"
  shows "of_int M * 2 powi j \<le> fl x"
proof -
  let ?a = "of_int M * (2::rat) powi j"
  let ?t = "max (expo x) (- 1022) - 52"
  from assms(1,2) have xp: "0 < x" by simp
  then have nz: "x \<noteq> 0" and ax: "\<bar>x\<bar> = x" by simp_all
  have flx: "fl x = of_int (rhe (x / quantum x)) * quantum x"
    using nz by (simp add: fl_def)
  show ?thesis
  proof (cases "?t \<le> j")
    case True
    have "of_int (M * 2 ^ nat (j - ?t)) = ?a / quantum x"
      unfolding quantum_def by (simp only: over_quantum [OF True])
    also have "\<dots> \<le> x / quantum x"
      using assms(2) quantum_pos [of x] by (simp add: divide_right_mono)
    finally have "M * 2 ^ nat (j - ?t) \<le> rhe (x / quantum x)"
      by (rule rhe_ge)
    then have "(of_int (M * 2 ^ nat (j - ?t)) :: rat) \<le> of_int (rhe (x / quantum x))"
      by (simp only: of_int_le_iff)
    then have "of_int (M * 2 ^ nat (j - ?t)) * quantum x \<le> of_int (rhe (x / quantum x)) * quantum x"
      using quantum_pos [of x] by (simp only: mult_le_cancel_right) simp
    moreover have "of_int (M * 2 ^ nat (j - ?t)) * quantum x = ?a / quantum x * quantum x"
      unfolding quantum_def by (simp only: over_quantum [OF True])
    moreover have "?a / quantum x * quantum x = ?a"
      using quantum_pos [of x] by simp
    ultimately show ?thesis by (simp only: flx)
  next
    case False
    with assms(4) have e: "- 1022 < expo x" and t: "?t = expo x - 52" and j: "53 + j \<le> expo x"
      by auto
    have q: "quantum x = 2 powi (expo x - 52)"
      using t by (simp add: quantum_def)
    have "(of_int M :: rat) < of_int (2 ^ 53)" using assms(3) by (simp only: of_int_less_iff)
    then have "?a < 2 ^ 53 * 2 powi j" by (intro mult_strict_right_mono) simp_all
    also have "\<dots> = 2 powi (53 + j)" by (simp add: pow2_add)
    also have "\<dots> \<le> 2 powi expo x" using j by (simp add: pow2_le_iff)
    finally have a: "?a < 2 powi expo x" .
    have "(of_int (2 ^ 52) :: rat) = 2 powi expo x / quantum x"
      unfolding q using pow2_split [of "expo x" "expo x - 52"] by simp
    also have "\<dots> \<le> x / quantum x"
      using expo_bounds(1) [OF nz] ax quantum_pos [of x] by (simp add: divide_right_mono)
    finally have "2 ^ 52 \<le> rhe (x / quantum x)" by (rule rhe_ge)
    then have "(of_int (2 ^ 52) :: rat) \<le> of_int (rhe (x / quantum x))"
      by (simp only: of_int_le_iff)
    then have "of_int (2 ^ 52) * quantum x \<le> of_int (rhe (x / quantum x)) * quantum x"
      using quantum_pos [of x] by (simp only: mult_le_cancel_right) simp
    moreover have "of_int (2 ^ 52) * quantum x = (2::rat) powi expo x"
      unfolding q using pow2_add [of 52 "expo x - 52"] by simp
    ultimately have "2 powi expo x \<le> fl x" by (simp only: flx)
    with a show ?thesis by simp
  qed
qed

text \<open>Rounding a value between 0 and a natural number below \<open>2^53\<close> stays between them.\<close>

lemma fl_between:
  assumes "0 \<le> x" and "x \<le> of_nat b" and "b < 2 ^ 53"
  shows "0 \<le> fl x" and "fl x \<le> of_nat b" and "js_num x = Fin (fl x)"
proof -
  show lo: "0 \<le> fl x" using assms(1) by (rule fl_nonneg)
  show hi: "fl x \<le> of_nat b"
  proof (cases "x = 0")
    case True
    then show ?thesis by (simp add: fl_def)
  next
    case False
    with assms(1) have xp: "0 < x" by simp
    have "int b < 2 ^ 53" using assms(3)
      by (metis of_nat_less_numeral_power_cancel_iff)
    from fl_upper [OF xp _ this, of 0] assms(2) show ?thesis by simp
  qed
  have "(of_nat b :: rat) < 2 ^ 53" using assms(3)
    by (metis of_nat_less_numeral_power_cancel_iff)
  with hi have "fl x < 2 ^ 53" by simp
  with lo show "js_num x = Fin (fl x)" by (rule js_num_Fin)
qed

section \<open>Window membership\<close>

text \<open>
  C1. For minute-of-day integers \<open>minute\<close>, \<open>start\<close>, \<open>end\<close> in \<open>[0,1439]\<close>: when
  \<open>start \<le> end\<close>, \<open>isInRange\<close> is true exactly when \<open>start \<le> minute < end\<close>; when
  \<open>start > end\<close>, exactly when \<open>minute \<ge> start\<close> or \<open>minute < end\<close>. The window 22:00-06:00
  (1320 to 360) contains minute 1350 and does not contain minute 420.
\<close>

theorem isInRange_window:
  fixes minute start end' :: int
  assumes "0 \<le> minute" "minute \<le> 1439" "0 \<le> start" "start \<le> 1439" "0 \<le> end'" "end' \<le> 1439"
  shows "(start \<le> end' \<longrightarrow>
            isInRange (minute_num minute) (minute_num start) (minute_num end') =
              (start \<le> minute \<and> minute < end')) \<and>
         (start > end' \<longrightarrow>
            isInRange (minute_num minute) (minute_num start) (minute_num end') =
              (minute \<ge> start \<or> minute < end')) \<and>
         isInRange (minute_num 1350) (minute_num 1320) (minute_num 360) \<and>
         \<not> isInRange (minute_num 420) (minute_num 1320) (minute_num 360)"
  by (simp add: isInRange_def js_ge_def minute_num_def)

theorem isInRange_window_witness:
  "isInRange (minute_num 600) (minute_num 540) (minute_num 1020) \<and>
   \<not> isInRange (minute_num 1020) (minute_num 540) (minute_num 1020) \<and>
   isInRange (minute_num 30) (minute_num 1320) (minute_num 360) \<and>
   \<not> isInRange (minute_num 360) (minute_num 1320) (minute_num 360)"
  using isInRange_window [of 600 540 1020] isInRange_window [of 1020 540 1020]
    isInRange_window [of 30 1320 360] isInRange_window [of 360 1320 360]
  by simp

section \<open>Parsing a local time\<close>

lemma split_js_no_sep: "c \<notin> set s \<Longrightarrow> split_js c s = [s]"
  by (induction s) auto

lemma split_js_sep: "c \<notin> set h \<Longrightarrow> split_js c (h @ c # rest) = h # split_js c rest"
  by (induction h) auto

lemma digit_not_colon: "is_digit ch \<Longrightarrow> ch \<noteq> CHR '':''"
  by (auto simp: is_digit_def)

lemma digits_no_colon: "digits s \<Longrightarrow> CHR '':'' \<notin> set s"
  by (auto simp: digits_def list_all_iff dest: digit_not_colon)

lemma split_two: "digits h \<Longrightarrow> digits m \<Longrightarrow> split_js CHR '':'' (h @ '':'' @ m) = [h, m]"
  by (simp add: split_js_sep split_js_no_sep digits_no_colon)

lemma split_js_nonempty: "split_js c t \<noteq> []"
  by (induction t) (auto split: list.splits)

lemma split_js_single: "split_js c t = [m] \<Longrightarrow> t = m"
proof (induction t arbitrary: m)
  case Nil
  then show ?case by simp
next
  case (Cons x t)
  then show ?case
    by (auto simp: split_js_nonempty split: if_splits list.splits)
qed

lemma parseTime_digits:
  assumes "digits h" and "digits m" and "dec h * 60 + dec m < 2 ^ 53"
  shows "parseTime other (h @ '':'' @ m) = Fin (of_nat (dec h * 60 + dec m))"
proof -
  from assms(3) have hb: "dec h < 2 ^ 53" and mb: "dec m < 2 ^ 53" and pb: "dec h * 60 < 2 ^ 53"
    by simp_all
  have sp: "split_js CHR '':'' (h @ '':'' @ m) = [h, m]"
    using assms(1,2) by (rule split_two)
  have nh: "Number_js other h = Fin (of_nat (dec h))"
    using assms(1) hb by (simp add: Number_js_def)
  have nm: "Number_js other m = Fin (of_nat (dec m))"
    using assms(2) mb by (simp add: Number_js_def)
  have sixty: "Fin 60 = Fin (of_nat 60)" by simp
  have "parseTime other (h @ '':'' @ m) =
        js_add (js_mul (Fin (of_nat (dec h))) (Fin (of_nat 60))) (Fin (of_nat (dec m)))"
    unfolding parseTime_def sp by (simp only: list.map nh nm list.case sixty)
  also have "\<dots> = Fin (of_nat (dec h * 60 + dec m))"
    by (simp only: js_mul_nat [OF pb] js_add_nat [OF assms(3)])
  finally show ?thesis .
qed

lemma spec_valid:
  assumes "parseLocalTime_spec s = Inr v"
  shows "\<exists>h m. s = h @ '':'' @ m \<and> digits h \<and> digits m \<and> dec h \<le> 23 \<and> dec m \<le> 59 \<and>
           v = dec h * 60 + dec m"
proof -
  have join: "split_js c t = [h, m] \<Longrightarrow> t = h @ c # m" for c t h m
  proof (induction t arbitrary: h)
    case Nil
    then show ?case by simp
  next
    case (Cons x t)
    show ?case
    proof (cases "x = c")
      case True
      with Cons.prems have "h = []" and "split_js c t = [m]" by simp_all
      moreover from \<open>split_js c t = [m]\<close> have "t = m"
        by (rule split_js_single)
      ultimately show ?thesis using True by simp
    next
      case False
      with Cons.prems obtain h' where "split_js c t = [h', m]" and "h = x # h'"
        by (auto split: list.splits)
      with Cons.IH [of h'] show ?thesis by simp
    qed
  qed
  from assms obtain h m where sp: "split_js CHR '':'' s = [h, m]" and
    ok: "digits h" "digits m" "dec h \<le> 23" "dec m \<le> 59" and v: "v = dec h * 60 + dec m"
    by (auto simp: parseLocalTime_spec_def split: list.splits if_splits)
  from join [OF sp] have "s = h @ '':'' @ m" by simp
  with ok v show ?thesis by blast
qed

text \<open>
  C6, as the code has it. On a well-formed time, two decimal integers separated by a
  colon with the first at most 23 and the second at most 59, \<open>parseTime\<close> returns hours
  times 60 plus minutes, as the parser of the specification does. It checks nothing: on
  \<open>25:00\<close> it returns 1500.
\<close>

theorem parseTime_valid:
  "(parseLocalTime_spec s = Inr v \<longrightarrow> parseTime other s = Fin (of_nat v)) \<and>
   parseTime other ''25:00'' = Fin 1500"
proof (intro conjI impI)
  assume a: "parseLocalTime_spec s = Inr v"
  from spec_valid [OF a] obtain h m where
    s: "s = h @ '':'' @ m" and d: "digits h" "digits m" and
    r: "dec h \<le> 23" "dec m \<le> 59" and v: "v = dec h * 60 + dec m"
    by blast
  from r have "dec h * 60 + dec m < 2 ^ 53" by simp
  from parseTime_digits [OF d this] s v show "parseTime other s = Fin (of_nat v)"
    by simp
next
  have d: "digits ''25''" "digits ''00''" by (simp_all add: digits_def is_digit_def)
  have v: "dec ''25'' = 25" "dec ''00'' = 0" by (simp_all add: dec_def digit_val_def)
  from parseTime_digits [OF d, of other] v show "parseTime other ''25:00'' = Fin 1500" by simp
qed

theorem parseTime_valid_witness:
  "parseLocalTime_spec ''09:30'' = Inr 570 \<and>
   parseTime (Number_other utc_env) ''09:30'' = Fin 570 \<and>
   parseTime (Number_other utc_env) ''25:00'' = Fin 1500"
proof -
  have v: "parseLocalTime_spec ''09:30'' = Inr 570"
    by (simp add: parseLocalTime_spec_def digits_def is_digit_def dec_def digit_val_def)
  from parseTime_valid [of "''09:30''" 570 "Number_other utc_env"] v show ?thesis by simp
qed

text \<open>
  C6, as the specification words it, fails: \<open>25:00\<close> is not a well-formed time, the
  parser of the specification fails on it with \<open>InvalidFormat\<close>, and \<open>parseTime\<close> returns
  1500.
\<close>

theorem parseTime_no_InvalidFormat:
  "\<not> validTime ''25:00'' \<and>
   parseLocalTime_spec ''25:00'' = Inl InvalidFormat \<and>
   parseTime (Number_other utc_env) ''25:00'' = Fin 1500"
proof -
  have d: "digits ''25''" "digits ''00''" by (simp_all add: digits_def is_digit_def)
  have v: "dec ''25'' = 25" "dec ''00'' = 0" by (simp_all add: dec_def digit_val_def)
  from parseTime_digits [OF d, of "Number_other utc_env"] v
  have "parseTime (Number_other utc_env) ''25:00'' = Fin 1500" by simp
  then show ?thesis
    by (simp add: validTime_def parseLocalTime_spec_def digits_def is_digit_def dec_def digit_val_def)
qed

section \<open>The grid, slot by slot\<close>

lemma length_slotUpdate: "length (slotUpdate env l d p slots i) = length slots"
  by (simp add: slotUpdate_def)

lemma length_inner: "length (foldl (slotUpdate env l d p) slots is) = length slots"
  by (induction "is" arbitrary: slots) (simp_all add: length_slotUpdate)

lemma nth_slotUpdate:
  "j < length slots \<Longrightarrow>
   slotUpdate env l d p slots i ! j =
     (if j = i then slotStep env l d p i (slots ! i) else slots ! j)"
  by (simp add: slotUpdate_def)

lemma nth_inner:
  "n \<le> length slots \<Longrightarrow> i < length slots \<Longrightarrow>
   foldl (slotUpdate env l d p) slots [0..<n] ! i =
     (if i < n then slotStep env l d p i (slots ! i) else slots ! i)"
proof (induction n)
  case 0
  then show ?case by simp
next
  case (Suc n)
  then have len: "i < length (foldl (slotUpdate env l d p) slots [0..<n])"
    by (simp add: length_inner)
  from Suc len show ?case
    by (auto simp: nth_slotUpdate)
qed

lemma outer_fold:
  "length slots = 48 \<Longrightarrow>
   length (foldl (\<lambda>slots p. foldl (slotUpdate env l d p) slots [0..<48]) slots ps) = 48 \<and>
   (\<forall>i<48. foldl (\<lambda>slots p. foldl (slotUpdate env l d p) slots [0..<48]) slots ps ! i =
      foldl (\<lambda>s p. slotStep env l d p i s) (slots ! i) ps)"
proof (induction ps arbitrary: slots)
  case Nil
  then show ?case by simp
next
  case (Cons p ps)
  let ?s1 = "foldl (slotUpdate env l d p) slots [0..<48]"
  have len1: "length ?s1 = 48" using Cons.prems by (simp add: length_inner)
  have nth1: "\<forall>i<48. ?s1 ! i = slotStep env l d p i (slots ! i)"
    using Cons.prems nth_inner [of 48 slots _ env l d p] by simp
  from Cons.IH [OF len1] nth1 show ?case
    by simp
qed

lemma length_buildSlots: "length (buildSlots env st d) = 48"
  using outer_fold [of "replicate 48 emptySlot" env "excludeLunch st" d "participants st"]
  by (simp add: buildSlots_def)

lemma nth_buildSlots:
  "i < 48 \<Longrightarrow>
   buildSlots env st d ! i =
     foldl (\<lambda>s p. slotStep env (excludeLunch st) d p i s) emptySlot (participants st)"
  using outer_fold [of "replicate 48 emptySlot" env "excludeLunch st" d "participants st"]
  by (simp add: buildSlots_def)

lemma slot_ok_slotStep: "slot_ok s \<Longrightarrow> slot_ok (slotStep env l d p i s)"
  by (auto simp: slot_ok_def slotStep_def Let_def split: option.splits prod.splits)

lemma slot_ok_fold: "slot_ok s \<Longrightarrow> slot_ok (foldl (\<lambda>s p. slotStep env l d p i s) s ps)"
  by (induction ps arbitrary: s) (simp_all add: slot_ok_slotStep)

lemma slot_ok_emptySlot: "slot_ok emptySlot"
  by (simp add: slot_ok_def emptySlot_def)

lemma slot_ok_buildSlots: "list_all slot_ok (buildSlots env st d)"
proof -
  have "slot_ok (buildSlots env st d ! i)" if "i < 48" for i
    using that by (simp add: nth_buildSlots slot_ok_fold slot_ok_emptySlot)
  then show ?thesis
    by (simp add: list_all_length length_buildSlots)
qed

lemma cache_okD: "cache_ok c \<Longrightarrow> c k = Some g \<Longrightarrow> length g = 48 \<and> list_all slot_ok g"
  unfolding cache_ok_def by blast

lemma cache_ok_update:
  "cache_ok c \<Longrightarrow> length g = 48 \<Longrightarrow> list_all slot_ok g \<Longrightarrow> cache_ok (c(k \<mapsto> g))"
  unfolding cache_ok_def by (simp del: split_paired_All)

lemma cache_ok_after:
  "cache_ok (cache st) \<Longrightarrow> cache_ok (cache (snd (calculateSlotAvailability env st d)))"
  by (simp add: calculateSlotAvailability_def Let_def cache_ok_update length_buildSlots
      slot_ok_buildSlots split: option.splits)

lemma grid_ok:
  "cache_ok (cache st) \<Longrightarrow>
   length (fst (calculateSlotAvailability env st d)) = 48 \<and>
   list_all slot_ok (fst (calculateSlotAvailability env st d))"
  by (auto simp: calculateSlotAvailability_def Let_def length_buildSlots
      slot_ok_buildSlots split: option.splits dest: cache_okD)

text \<open>
  C10. In a grid returned by \<open>calculateSlotAvailability\<close> there are 48 slots, and in each
  of them \<open>count\<close> is the length of the \<open>participants\<close> list and \<open>hasConflict\<close> holds exactly
  when an entry of that list has \<open>isConflict\<close>. The grid is either built by the call or
  taken from the cache, which holds what earlier calls built.
\<close>

theorem grid_slots_consistent:
  assumes "cache_ok (cache st)"
  shows "length (fst (calculateSlotAvailability env st baseDate)) = 48 \<and>
         (\<forall>s \<in> set (fst (calculateSlotAvailability env st baseDate)).
            count s = length (slot_participants s) \<and>
            (hasConflict s \<longleftrightarrow> (\<exists>e \<in> set (slot_participants s). isConflict e))) \<and>
         cache_ok (cache (snd (calculateSlotAvailability env st baseDate)))"
  using grid_ok [OF assms, of env baseDate] cache_ok_after [OF assms, of env baseDate]
  by (auto simp: list_all_iff slot_ok_def list_ex_iff)

theorem grid_slots_consistent_witness:
  "cache_ok (cache state_alice) \<and>
   length (fst (calculateSlotAvailability utc_env state_alice today)) = 48 \<and>
   list_all (\<lambda>s. count s = length (slot_participants s) \<and>
                 (hasConflict s \<longleftrightarrow> list_ex isConflict (slot_participants s)))
     (fst (calculateSlotAvailability utc_env state_alice today))"
proof -
  have ok: "cache_ok (cache state_alice)"
    by (simp add: cache_ok_def state_alice_def)
  from grid_slots_consistent [OF ok, of utc_env today] ok show ?thesis
    by (simp add: list_all_iff list_ex_iff)
qed

section \<open>The ranker\<close>

lemma slotsNeededOf_div: "slotsNeededOf dur = - ((- dur) div 30)"
  unfolding slotsNeededOf_def ceiling_def
  by (metis floor_divide_of_int_eq minus_divide_left of_int_minus of_int_numeral)

lemma scanDays_no_window:
  "48 < n \<Longrightarrow> \<exists>st'. scanDays env st n ds = Inr ([], st')"
proof (induction ds arbitrary: st)
  case Nil
  then show ?case by simp
next
  case (Cons d ds)
  obtain slots st1 where c: "calculateSlotAvailability env st (dateAfterDays env d) = (slots, st1)"
    by (cases "calculateSlotAvailability env st (dateAfterDays env d)")
  from Cons.IH [OF Cons.prems, of st1] obtain st2 where "scanDays env st1 n ds = Inr ([], st2)"
    by blast
  with c Cons.prems show ?case by simp
qed

text \<open>
  C7. When \<open>slotsNeeded = ceil(duration/30)\<close> exceeds 48, \<open>calculateBestTimes\<close> returns the
  empty list, for every participant list, every \<open>days\<close> and every cache; it does not throw.
\<close>

theorem calculateBestTimes_too_long:
  assumes "48 < slotsNeededOf (duration st)"
  shows "\<exists>st'. calculateBestTimes env st = Inr ([], st')"
proof -
  from scanDays_no_window [OF assms]
  obtain st' where "scanDays env st (slotsNeededOf (duration st)) [0..<nat (days st)] = Inr ([], st')"
    by blast
  then show ?thesis
    by (simp add: calculateBestTimes_def slice_js_def)
qed

theorem calculateBestTimes_too_long_witness:
  "48 < slotsNeededOf (duration (state_alice\<lparr>duration := 1450, days := 3\<rparr>)) \<and>
   (\<exists>st'. calculateBestTimes utc_env (state_alice\<lparr>duration := 1450, days := 3\<rparr>) = Inr ([], st'))"
proof -
  have long: "48 < slotsNeededOf (duration (state_alice\<lparr>duration := 1450, days := 3\<rparr>))"
    by (simp add: slotsNeededOf_div)
  from calculateBestTimes_too_long [OF long, of utc_env] long show ?thesis
    by simp
qed

subsection \<open>What a window scan returns\<close>

lemma set_foldl_set_add: "set (foldl set_add av xs) = set av \<union> set xs"
  by (induction xs arbitrary: av) (auto simp: set_add_def)

lemma scanWindow_Inr:
  "scanWindow slots i js (sc0, av0) = Inr (sc, av) \<Longrightarrow>
   sc = sc0 + sum_list (map (\<lambda>j. count (slots ! (i + j))) js) \<and>
   set av = set av0 \<union> (\<Union>j\<in>set js. namesOf (slots ! (i + j))) \<and>
   (\<forall>j\<in>set js. i + j < length slots)"
proof (induction js arbitrary: sc0 av0)
  case Nil
  then show ?case by simp
next
  case (Cons j js)
  from Cons.prems have inr: "i + j < length slots"
    by (simp split: if_splits)
  with Cons.prems have
    "scanWindow slots i js (sc0 + count (slots ! (i + j)),
        foldl set_add av0 (map entry_name (slot_participants (slots ! (i + j))))) = Inr (sc, av)"
    by simp
  from Cons.IH [OF this] inr show ?case
    by (auto simp: set_foldl_set_add namesOf_def)
qed

lemma requiredScore_foldl:
  "foldl (\<lambda>r p. if p_priority p = Some ''required'' \<and> p_name p \<in> set av then r + 2 else r) r0 ps =
   r0 + 2 * length (filter (\<lambda>p. p_priority p = Some ''required'' \<and> p_name p \<in> set av) ps)"
  by (induction ps arbitrary: r0) simp_all

lemma requiredScore_count:
  "requiredScore ps av =
   2 * length (filter (\<lambda>p. p_priority p = Some ''required'' \<and> p_name p \<in> set av) ps)"
  by (simp add: requiredScore_def requiredScore_foldl)

lemma window_sum: "sum_list (map (\<lambda>j. count (slots ! (i + j))) [0..<n]) = sum_list (map count (windowSlots slots i n))"
  by (simp add: windowSlots_def comp_def)

lemma window_names:
  "(\<Union>j\<in>set [0..<n]. namesOf (slots ! (i + j))) = {nm. inSomeSlot (windowSlots slots i n) nm}"
  by (auto simp: inSomeSlot_def windowSlots_def list_ex_iff)

subsection \<open>What the loops push\<close>

lemma scanStarts_mem:
  "scanStarts env st baseDate d slots n is = Inr found \<Longrightarrow> s \<in> set found \<Longrightarrow>
   \<exists>i\<in>set is. \<exists>sc av. scanWindow slots i [0..<n] (0, []) = Inr (sc, av) \<and>
      0 < sc + requiredScore (participants st) av \<and>
      s = mkSuggestion env st baseDate d i (sc + requiredScore (participants st) av) av"
proof (induction "is" arbitrary: found)
  case Nil
  then show ?case by simp
next
  case (Cons i "is")
  from Cons.prems(1) obtain sc av rest where
    w: "scanWindow slots i [0..<n] (0, []) = Inr (sc, av)" and
    r: "scanStarts env st baseDate d slots n is = Inr rest" and
    f: "found = (if 0 < sc + requiredScore (participants st) av
                 then mkSuggestion env st baseDate d i (sc + requiredScore (participants st) av) av # rest
                 else rest)"
    by (auto simp: Let_def split: sum.splits prod.splits)
  show ?case
  proof (cases "s \<in> set rest")
    case True
    from Cons.IH [OF r True] show ?thesis by auto
  next
    case False
    with f Cons.prems(2) w show ?thesis
      by (auto split: if_splits)
  qed
qed

lemma localTimeOf_cache:
  "localTimeOf env (st\<lparr>cache := c\<rparr>) = localTimeOf env st"
  by (intro ext) (simp add: localTimeOf_def)

lemma mkSuggestion_cache:
  "mkSuggestion env (st\<lparr>cache := c\<rparr>) = mkSuggestion env st"
  by (intro ext) (simp add: mkSuggestion_def localTimeOf_cache)

lemma scanStarts_cache:
  "scanStarts env (st\<lparr>cache := c\<rparr>) baseDate d slots n is = scanStarts env st baseDate d slots n is"
  by (induction "is") (simp_all add: mkSuggestion_cache Let_def split: sum.splits prod.splits)

lemma calc_state: "snd (calculateSlotAvailability env st d) = st\<lparr>cache := cache (snd (calculateSlotAvailability env st d))\<rparr>"
  by (simp add: calculateSlotAvailability_def Let_def split: option.splits)

lemma stateAtDay_cache: "stateAtDay env st k = st\<lparr>cache := cache (stateAtDay env st k)\<rparr>"
proof (induction k)
  case 0
  then show ?case by simp
next
  case (Suc k)
  have "stateAtDay env st (Suc k) =
        (stateAtDay env st k)\<lparr>cache := cache (stateAtDay env st (Suc k))\<rparr>"
    using calc_state [of env "stateAtDay env st k" "dateAfterDays env k"] by simp
  also have "\<dots> = st\<lparr>cache := cache (stateAtDay env st (Suc k))\<rparr>"
    by (subst Suc.IH) simp
  finally show ?case .
qed

lemma scanStarts_stateAtDay:
  "scanStarts env (stateAtDay env st k) baseDate d slots n is = scanStarts env st baseDate d slots n is"
  by (subst stateAtDay_cache) (rule scanStarts_cache)

lemma scanDays_step:
  "k < m \<Longrightarrow>
   scanDays env (stateAtDay env st k) n [k..<m] =
     (case scanStarts env st (dateAfterDays env k) k (gridOfDay env st k) (nat n) [0..<nat (49 - n)] of
        Inl e \<Rightarrow> Inl e
      | Inr found \<Rightarrow>
          (case scanDays env (stateAtDay env st (Suc k)) n [Suc k..<m] of
             Inl e \<Rightarrow> Inl e
           | Inr (rest, st2) \<Rightarrow> Inr (found @ rest, st2)))"
proof -
  assume "k < m"
  then have l: "[k..<m] = k # [Suc k..<m]" by (simp add: upt_conv_Cons)
  have c: "calculateSlotAvailability env (stateAtDay env st k) (dateAfterDays env k) =
           (gridOfDay env st k, stateAtDay env st (Suc k))"
    by (simp add: gridOfDay_def)
  show ?thesis
    unfolding l scanDays.simps Let_def c prod.case
    using scanStarts_stateAtDay [of env st "Suc k"] by simp
qed

lemma scanDays_mem:
  "scanDays env (stateAtDay env st k) n [k..<m] = Inr (rs, st') \<Longrightarrow> s \<in> set rs \<Longrightarrow>
   \<exists>d found. k \<le> d \<and> d < m \<and>
     scanStarts env st (dateAfterDays env d) d (gridOfDay env st d) (nat n) [0..<nat (49 - n)] = Inr found \<and>
     s \<in> set found"
proof (induction "m - k" arbitrary: k rs)
  case 0
  then show ?case by simp
next
  case (Suc x)
  then have km: "k < m" by simp
  from Suc.prems(1) obtain found rest where
    f: "scanStarts env st (dateAfterDays env k) k (gridOfDay env st k) (nat n) [0..<nat (49 - n)] = Inr found" and
    r: "scanDays env (stateAtDay env st (Suc k)) n [Suc k..<m] = Inr (rest, st')" and
    rs: "rs = found @ rest"
    unfolding scanDays_step [OF km] by (auto split: sum.splits prod.splits)
  show ?case
  proof (cases "s \<in> set found")
    case True
    with f km show ?thesis by blast
  next
    case False
    with rs Suc.prems(2) have "s \<in> set rest" by simp
    moreover from Suc.hyps(2) have "x = m - Suc k" by simp
    ultimately obtain d found' where "Suc k \<le> d" "d < m"
      "scanStarts env st (dateAfterDays env d) d (gridOfDay env st d) (nat n) [0..<nat (49 - n)] = Inr found'"
      "s \<in> set found'"
      using Suc.hyps(1) [of "Suc k" rest] r by blast
    then show ?thesis by (intro exI [of _ d] exI [of _ found']) simp
  qed
qed

lemma set_slice_js: "set (slice_js xs n) \<subseteq> set xs"
  by (auto simp: slice_js_def Let_def dest: in_set_takeD)

lemma returned_suggestion:
  assumes "calculateBestTimes env st = Inr (rs, st')" and "s \<in> set rs"
  shows "\<exists>i sc av. day s < nat (days st) \<and> i < nat (49 - slotsNeededOf (duration st)) \<and>
     scanWindow (gridOfDay env st (day s)) i [0..<nat (slotsNeededOf (duration st))] (0, []) = Inr (sc, av) \<and>
     0 < sc + requiredScore (participants st) av \<and>
     s = mkSuggestion env st (dateAfterDays env (day s)) (day s) i
           (sc + requiredScore (participants st) av) av"
proof -
  let ?n = "slotsNeededOf (duration st)"
  from assms(1) obtain results where
    sd: "scanDays env st ?n [0..<nat (days st)] = Inr (results, st')" and
    rs: "rs = slice_js (sort_key (\<lambda>s. - int (score s)) results) (maxSuggestions st)"
    by (auto simp: calculateBestTimes_def Let_def split: sum.splits prod.splits)
  from rs assms(2) set_slice_js have "s \<in> set results"
    by fastforce
  with sd scanDays_mem [of env st 0 ?n "nat (days st)" results st' s]
  obtain d found where d: "d < nat (days st)" and
    f: "scanStarts env st (dateAfterDays env d) d (gridOfDay env st d) (nat ?n) [0..<nat (49 - ?n)] = Inr found"
    and m: "s \<in> set found"
    by auto
  from scanStarts_mem [OF f m] obtain i sc av where
    i: "i < nat (49 - ?n)" and
    w: "scanWindow (gridOfDay env st d) i [0..<nat ?n] (0, []) = Inr (sc, av)" and
    p: "0 < sc + requiredScore (participants st) av" and
    s: "s = mkSuggestion env st (dateAfterDays env d) d i (sc + requiredScore (participants st) av) av"
    by auto
  from s have ds: "day s = d" by (simp add: mkSuggestion_def Let_def)
  show ?thesis unfolding ds using d i w p s by blast
qed

subsection \<open>Evaluating the loops\<close>

lemma scanWindow_total:
  "(\<forall>j\<in>set js. i + j < length slots) \<Longrightarrow> \<exists>r. scanWindow slots i js acc = Inr r"
proof (induction js arbitrary: acc)
  case Nil
  then show ?case by simp
next
  case (Cons j js)
  then show ?case by (cases acc) simp
qed

lemma scanStarts_pushed:
  "(\<forall>i\<in>set is. \<forall>j<n. i + j < length slots) \<Longrightarrow>
   scanStarts env st baseDate d slots n is = Inr (concat (map (pushedAt env st baseDate d slots n) is))"
proof (induction "is")
  case Nil
  then show ?case by simp
next
  case (Cons i "is")
  then have "\<forall>j\<in>set [0..<n]. i + j < length slots" by auto
  from scanWindow_total [OF this] obtain sc av where
    "scanWindow slots i [0..<n] (0, []) = Inr (sc, av)" by fastforce
  with Cons show ?case
    by (simp add: pushedAt_def Let_def)
qed

text \<open>
  With a cache of well-formed grids the ranker reads no slot out of range: it returns a
  list.
\<close>

lemma scanDays_total:
  "cache_ok (cache st) \<Longrightarrow> \<exists>rs st'. scanDays env st n ds = Inr (rs, st')"
proof (induction ds arbitrary: st)
  case Nil
  then show ?case by simp
next
  case (Cons d ds)
  obtain slots st1 where c: "calculateSlotAvailability env st (dateAfterDays env d) = (slots, st1)"
    by (cases "calculateSlotAvailability env st (dateAfterDays env d)")
  from grid_ok [OF Cons.prems, of env "dateAfterDays env d"] c have len: "length slots = 48"
    by simp
  from cache_ok_after [OF Cons.prems, of env "dateAfterDays env d"] c have "cache_ok (cache st1)"
    by simp
  from Cons.IH [OF this] obtain rest st2 where r: "scanDays env st1 n ds = Inr (rest, st2)"
    by blast
  have "\<forall>i\<in>set [0..<nat (49 - n)]. \<forall>j<nat n. i + j < length slots"
    using len by auto
  from scanStarts_pushed [OF this] c r show ?case
    by simp
qed

lemma calculateBestTimes_total:
  "cache_ok (cache st) \<Longrightarrow> \<exists>rs st'. calculateBestTimes env st = Inr (rs, st')"
proof -
  assume "cache_ok (cache st)"
  from scanDays_total [OF this]
  obtain rs st' where
    "scanDays env st (slotsNeededOf (duration st)) [0..<nat (days st)] = Inr (rs, st')"
    by blast
  then show ?thesis
    by (simp add: calculateBestTimes_def)
qed

lemma concat_map_if:
  "concat (map (\<lambda>i. if P i then [f i] else []) xs) = map f (filter P xs)"
  by (induction xs) simp_all

subsection \<open>The concrete platform\<close>

lemma today_fields:
  "toDateString today = ''day ''" "getUTCFullYear today = 2026" "getUTCMonth today = 10" "getUTCDate today = 2"
  by (simp_all add: today_def utc_env_def)

lemma parse_hhmm:
  assumes "digits h" and "digits m" and "dec h = a" and "dec m = b" and "a * 60 + b < 2 ^ 53"
  shows "parseTime (Number_other utc_env) (h @ '':'' @ m) = Fin (of_nat (a * 60 + b))"
  using parseTime_digits [OF assms(1,2), of "Number_other utc_env"] assms(3,4,5) by simp

lemma parse_0900: "parseTime (Number_other utc_env) ''09:00'' = Fin 540"
  using parse_hhmm [of "''09''" "''00''" 9 0]
  by (simp add: digits_def is_digit_def dec_def digit_val_def)

lemma parse_0930: "parseTime (Number_other utc_env) ''09:30'' = Fin 570"
  using parse_hhmm [of "''09''" "''30''" 9 30]
  by (simp add: digits_def is_digit_def dec_def digit_val_def)

lemma parse_1000: "parseTime (Number_other utc_env) ''10:00'' = Fin 600"
  using parse_hhmm [of "''10''" "''00''" 10 0]
  by (simp add: digits_def is_digit_def dec_def digit_val_def)

lemma parse_1700: "parseTime (Number_other utc_env) ''17:00'' = Fin 1020"
  using parse_hhmm [of "''17''" "''00''" 17 0]
  by (simp add: digits_def is_digit_def dec_def digit_val_def)

lemma parse_1600: "parseTime (Number_other utc_env) ''16:00'' = Fin 960"
  using parse_hhmm [of "''16''" "''00''" 16 0]
  by (simp add: digits_def is_digit_def dec_def digit_val_def)

lemma parse_2200: "parseTime (Number_other utc_env) ''22:00'' = Fin 1320"
  using parse_hhmm [of "''22''" "''00''" 22 0]
  by (simp add: digits_def is_digit_def dec_def digit_val_def)

lemma parse_0600: "parseTime (Number_other utc_env) ''06:00'' = Fin 360"
  using parse_hhmm [of "''06''" "''00''" 6 0]
  by (simp add: digits_def is_digit_def dec_def digit_val_def)

lemma half_hours_div: "(k * 30) div 60 = k div (2::nat)"
  using div_mult_mult2 [of 30 k 2] by simp

lemma half_hours_mod: "(k * 30) mod 60 = 30 * (k mod (2::nat))"
  using mult_mod_right [of 30 k 2] by (simp add: mult.commute)

lemma utc_clock:
  "formatToParts utc_env tz (utcInstant baseDate (k * 30)) = Some (k div 2, 30 * (k mod 2))"
  by (simp only: utc_env_def utcInstant_def platform.simps prod.case half_hours_div half_hours_mod)

lemma utc_minutes: "(k div 2) * 60 + 30 * (k mod 2) = k * (30::nat)"
proof -
  have aux: "a * 60 + 30 * b = (2 * a + b) * 30" for a b :: nat
    by simp
  show ?thesis
    by (simp only: aux mult_div_mod_eq)
qed

lemma rat_ge_540: "(540::rat) \<le> of_nat n \<longleftrightarrow> 540 \<le> n"
  using of_nat_le_iff [of 540 n, where ?'a = rat] by simp

lemma rat_lt_570: "(of_nat n :: rat) < 570 \<longleftrightarrow> n < 570"
  using of_nat_less_iff [of n 570, where ?'a = rat] by simp

lemma in_0900_0930: "isInRange (Fin (of_nat (k * 30))) (Fin 540) (Fin 570) \<longleftrightarrow> k = 18"
proof -
  have "isInRange (Fin (of_nat (k * 30))) (Fin 540) (Fin 570) \<longleftrightarrow> (540 \<le> k * 30 \<and> k * 30 < 570)"
    by (simp only: isInRange_def js_le.simps js_ge_def js_lt.simps rat_ge_540 rat_lt_570) simp
  also have "\<dots> \<longleftrightarrow> (18 \<le> k \<and> k < 19)" by simp
  also have "\<dots> \<longleftrightarrow> k = 18" by auto
  finally show ?thesis .
qed

lemma half_hour_slot:
  assumes "p_start p = ''09:00''" and "p_end p = ''09:30''"
  shows "slotStep utc_env False baseDate p k emptySlot =
     (if k = 18 then \<lparr>count = 1,
                      slot_participants = [\<lparr>entry_name = p_name p, entry_color = p_color p, isConflict = False\<rparr>],
                      hasConflict = False\<rparr>
      else emptySlot)"
  unfolding slotStep_def utc_clock assms parse_0900 parse_0930 option.case prod.case Let_def
    utc_minutes in_0900_0930
  by (simp add: emptySlot_def)

lemma calc_miss:
  "cache st (cacheKey st d) = None \<Longrightarrow>
   calculateSlotAvailability env st d =
     (buildSlots env st d, st\<lparr>cache := (cache st)(cacheKey st d \<mapsto> buildSlots env st d)\<rparr>)"
  by (simp add: calculateSlotAvailability_def Let_def)

lemma calc_hit:
  "cache st (cacheKey st d) = Some g \<Longrightarrow> calculateSlotAvailability env st d = (g, st)"
  by (simp add: calculateSlotAvailability_def)

lemma single_grid:
  assumes "participants st = [p]" and "\<not> excludeLunch st"
    and "p_start p = ''09:00''" and "p_end p = ''09:30''" and "k < 48"
  shows "buildSlots utc_env st baseDate ! k =
     (if k = 18 then \<lparr>count = 1,
                      slot_participants = [\<lparr>entry_name = p_name p, entry_color = p_color p, isConflict = False\<rparr>],
                      hasConflict = False\<rparr>
      else emptySlot)"
  using assms(1,2,5) by (simp add: nth_buildSlots half_hour_slot [OF assms(3,4)])

lemma upt_47_pick: "filter (\<lambda>i. i = 17 \<or> i = 18) [0..<47] = [17, 18]"
  by code_simp

lemma upt_48_pick: "filter (\<lambda>i. i = 18) [0..<48] = [18]"
  by code_simp

lemma concat_map_cong: "(\<And>i. i \<in> set xs \<Longrightarrow> F i = G i) \<Longrightarrow> concat (map F xs) = concat (map G xs)"
  by (induction xs) simp_all

lemma requiredScore_nil: "requiredScore ps [] = 0"
  by (simp add: requiredScore_count)

lemma pushed_bob:
  assumes "i < 47"
  shows "pushedAt utc_env st' today 0 (buildSlots utc_env state_bob today) 2 i =
     (if i = 17 \<or> i = 18 then [mkSuggestion utc_env st' today 0 i (1 + requiredScore (participants st') [''Bob'']) [''Bob'']] else [])"
proof -
  have two: "[0..<2] = [0, Suc 0]" by (simp add: upt_rec)
  have sb: "participants state_bob = [bob]" "\<not> excludeLunch state_bob" "p_start bob = ''09:00''" "p_end bob = ''09:30''"
    by (simp_all add: state_bob_def bob_def)
  have g0: "buildSlots utc_env state_bob today ! i = (if i = 18 then \<lparr>count = 1,
                      slot_participants = [\<lparr>entry_name = p_name bob, entry_color = p_color bob, isConflict = False\<rparr>],
                      hasConflict = False\<rparr>
      else emptySlot)"
    using assms by (intro single_grid sb) simp
  have g1: "buildSlots utc_env state_bob today ! Suc i = (if Suc i = 18 then \<lparr>count = 1,
                      slot_participants = [\<lparr>entry_name = p_name bob, entry_color = p_color bob, isConflict = False\<rparr>],
                      hasConflict = False\<rparr>
      else emptySlot)"
    using assms by (intro single_grid sb) simp
  have nm: "p_name bob = ''Bob''" by (simp add: bob_def)
  from assms show ?thesis
    unfolding pushedAt_def two
    by (simp add: length_buildSlots g0 g1 nm emptySlot_def set_add_def requiredScore_nil)
qed


lemma starts_2: "[0..<nat (49 - 2)] = [0..<47]"
  by simp

lemma scan_bob:
  "scanStarts utc_env st' today 0 (buildSlots utc_env state_bob today) 2 [0..<47] =
   Inr [mkSuggestion utc_env st' today 0 17 (1 + requiredScore (participants st') [''Bob'']) [''Bob''],
        mkSuggestion utc_env st' today 0 18 (1 + requiredScore (participants st') [''Bob'']) [''Bob'']]"
proof -
  have "scanStarts utc_env st' today 0 (buildSlots utc_env state_bob today) 2 [0..<47] =
        Inr (concat (map (pushedAt utc_env st' today 0 (buildSlots utc_env state_bob today) 2) [0..<47]))"
    by (rule scanStarts_pushed) (simp add: length_buildSlots)
  also have "concat (map (pushedAt utc_env st' today 0 (buildSlots utc_env state_bob today) 2) [0..<47]) =
     concat (map (\<lambda>i. if i = 17 \<or> i = 18
        then [mkSuggestion utc_env st' today 0 i (1 + requiredScore (participants st') [''Bob'']) [''Bob'']] else []) [0..<47])"
    by (rule concat_map_cong) (simp add: pushed_bob)
  also have "\<dots> = [mkSuggestion utc_env st' today 0 17 (1 + requiredScore (participants st') [''Bob'']) [''Bob''],
        mkSuggestion utc_env st' today 0 18 (1 + requiredScore (participants st') [''Bob'']) [''Bob'']]"
    by (simp only: concat_map_if upt_47_pick list.map)
  finally show ?thesis .
qed

lemma best_bob:
  "map_sum id fst (calculateBestTimes utc_env state_bob) = Inr [bob_at 510, bob_at 540]"
proof -
  let ?g = "buildSlots utc_env state_bob today"
  let ?st1 = "state_bob\<lparr>cache := (cache state_bob)(cacheKey state_bob today \<mapsto> ?g)\<rparr>"
  have n: "slotsNeededOf (duration state_bob) = 2"
    by (simp add: slotsNeededOf_div state_bob_def)
  have d: "[0..<nat (days state_bob)] = [0]"
    by (simp add: state_bob_def)
  have m: "maxSuggestions state_bob = 5"
    by (simp add: state_bob_def)
  have c: "calculateSlotAvailability utc_env state_bob (dateAfterDays utc_env 0) = (?g, ?st1)"
    unfolding today_def by (rule calc_miss) (simp add: state_bob_def)
  have mk: "mkSuggestion utc_env ?st1 today 0 i (1 + requiredScore (participants ?st1) [''Bob'']) [''Bob''] =
     \<lparr>start = (2026, 10, 2, i * 30), score = 3, available = [''Bob''],
         localTimes = [\<lparr>lt_name = ''Bob'', lt_time = ''--:--'', lt_available = True,
                        lt_color = ''#06b6d4'', lt_priority = ''required''\<rparr>],
         day = 0\<rparr>" for i
    by (simp add: mkSuggestion_def localTimeOf_def utcInstant_def today_fields state_bob_def bob_def
        requiredScore_def priorityOrRequired_def utc_env_def)
  have sd: "scanDays utc_env state_bob 2 [0] =
     Inr ([mkSuggestion utc_env ?st1 today 0 17 (1 + requiredScore (participants ?st1) [''Bob'']) [''Bob''],
           mkSuggestion utc_env ?st1 today 0 18 (1 + requiredScore (participants ?st1) [''Bob'']) [''Bob'']], ?st1)"
    unfolding scanDays.simps Let_def c prod.case starts_2
    by (simp only: today_def [symmetric] nat_numeral scan_bob sum.case prod.case append_Nil2)
  show ?thesis
    unfolding calculateBestTimes_def Let_def n d sd mk m
    by (simp add: slice_js_def bob_at_def)
qed

subsection \<open>Score and availability of a returned suggestion\<close>

lemma in_available:
  assumes "scanWindow slots i [0..<n] (0, []) = Inr (sc, av)"
  shows "nm \<in> set av \<longleftrightarrow> inSomeSlot (windowSlots slots i n) nm"
  using scanWindow_Inr [OF assms] window_names [of slots i n] by auto

lemma window_score:
  assumes "scanWindow slots i [0..<n] (0, []) = Inr (sc, av)"
  shows "sc + requiredScore ps av =
     sum_list (map count (windowSlots slots i n)) +
     2 * length (filter (\<lambda>p. p_priority p = Some ''required'' \<and>
                              inSomeSlot (windowSlots slots i n) (p_name p)) ps)"
proof -
  from scanWindow_Inr [OF assms]
  have "sc = sum_list (map count (windowSlots slots i n))"
    by (simp add: window_sum)
  then show ?thesis
    by (simp only: requiredScore_count in_available [OF assms])
qed

text \<open>
  C2, as the code has it. Every suggestion that \<open>calculateBestTimes\<close> returns belongs to a
  window of \<open>slotsNeeded\<close> consecutive slots of the grid of its day, and its score is the
  sum of \<open>count\<close> over those slots plus 2 for each participant whose priority is
  \<open>'required'\<close> and whose name is listed in at least one slot of the window.
\<close>

theorem suggestion_score:
  assumes "calculateBestTimes env st = Inr (rs, st')" and "s \<in> set rs"
  shows "\<exists>i. int i + slotsNeededOf (duration st) \<le> 48 \<and>
     start s = utcInstant (dateAfterDays env (day s)) (i * 30) \<and>
     score s =
       sum_list (map count
         (windowSlots (gridOfDay env st (day s)) i (nat (slotsNeededOf (duration st))))) +
       2 * length (filter (\<lambda>p. p_priority p = Some ''required'' \<and>
            inSomeSlot (windowSlots (gridOfDay env st (day s)) i (nat (slotsNeededOf (duration st))))
              (p_name p)) (participants st))"
proof -
  let ?n = "slotsNeededOf (duration st)"
  from returned_suggestion [OF assms] obtain i sc av where
    i: "i < nat (49 - ?n)" and
    w: "scanWindow (gridOfDay env st (day s)) i [0..<nat ?n] (0, []) = Inr (sc, av)" and
    s: "s = mkSuggestion env st (dateAfterDays env (day s)) (day s) i
              (sc + requiredScore (participants st) av) av"
    by blast
  from i have "int i + ?n \<le> 48" by linarith
  moreover from s have "start s = utcInstant (dateAfterDays env (day s)) (i * 30)"
    by (metis mkSuggestion_def suggestion.select_convs(1))
  moreover from s have "score s = sc + requiredScore (participants st) av"
    by (metis mkSuggestion_def suggestion.select_convs(2))
  ultimately show ?thesis
    unfolding window_score [OF w] by blast
qed

text \<open>
  C3, as the code has it. The \<open>available\<close> field of a returned suggestion holds exactly the
  names listed in at least one slot of its window: the union of the per-slot lists.
\<close>

theorem suggestion_available:
  assumes "calculateBestTimes env st = Inr (rs, st')" and "s \<in> set rs"
  shows "\<exists>i. int i + slotsNeededOf (duration st) \<le> 48 \<and>
     start s = utcInstant (dateAfterDays env (day s)) (i * 30) \<and>
     set (available s) =
       {nm. inSomeSlot (windowSlots (gridOfDay env st (day s)) i (nat (slotsNeededOf (duration st)))) nm}"
proof -
  let ?n = "slotsNeededOf (duration st)"
  from returned_suggestion [OF assms] obtain i sc av where
    i: "i < nat (49 - ?n)" and
    w: "scanWindow (gridOfDay env st (day s)) i [0..<nat ?n] (0, []) = Inr (sc, av)" and
    s: "s = mkSuggestion env st (dateAfterDays env (day s)) (day s) i
              (sc + requiredScore (participants st) av) av"
    by blast
  from i have "int i + ?n \<le> 48" by linarith
  moreover from s have "start s = utcInstant (dateAfterDays env (day s)) (i * 30)"
    by (metis mkSuggestion_def suggestion.select_convs(1))
  moreover from s have "available s = av"
    by (metis mkSuggestion_def suggestion.select_convs(3))
  then have "set (available s) = {nm. inSomeSlot (windowSlots (gridOfDay env st (day s)) i (nat ?n)) nm}"
    using in_available [OF w] by auto
  ultimately show ?thesis by blast
qed

subsection \<open>The one-hour meeting with Bob\<close>

lemma map_sum_fst_Inr: "map_sum id fst x = Inr rs \<Longrightarrow> \<exists>st'. x = Inr (rs, st')"
  by (cases x) auto

lemma grid_bob: "gridOfDay utc_env state_bob 0 = buildSlots utc_env state_bob today"
proof -
  have "cache state_bob (cacheKey state_bob (dateAfterDays utc_env 0)) = None"
    by (simp add: state_bob_def)
  from calc_miss [OF this] show ?thesis
    by (simp add: gridOfDay_def today_def)
qed

lemma window_bob:
  "windowSlots (gridOfDay utc_env state_bob 0) 17 2 =
   [emptySlot,
    \<lparr>count = 1,
      slot_participants = [\<lparr>entry_name = ''Bob'', entry_color = ''#06b6d4'', isConflict = False\<rparr>],
      hasConflict = False\<rparr>]"
proof -
  have two: "[0..<2] = [0, Suc 0]" by (simp add: upt_rec)
  have sb: "participants state_bob = [bob]" "\<not> excludeLunch state_bob"
    "p_start bob = ''09:00''" "p_end bob = ''09:30''"
    by (simp_all add: state_bob_def bob_def)
  have "buildSlots utc_env state_bob today ! 17 = emptySlot"
    using single_grid [OF sb, of 17 today] by simp
  moreover have "buildSlots utc_env state_bob today ! 18 =
    \<lparr>count = 1,
      slot_participants = [\<lparr>entry_name = ''Bob'', entry_color = ''#06b6d4'', isConflict = False\<rparr>],
      hasConflict = False\<rparr>"
    using single_grid [OF sb, of 18 today] by (simp add: bob_def)
  ultimately show ?thesis
    by (simp add: windowSlots_def two grid_bob)
qed

theorem suggestion_score_witness:
  "map_sum id fst (calculateBestTimes utc_env state_bob) = Inr [bob_at 510, bob_at 540] \<and>
   (\<exists>i. int i + slotsNeededOf (duration state_bob) \<le> 48 \<and>
     start (bob_at 510) = utcInstant (dateAfterDays utc_env (day (bob_at 510))) (i * 30) \<and>
     score (bob_at 510) =
       sum_list (map count
         (windowSlots (gridOfDay utc_env state_bob (day (bob_at 510))) i
            (nat (slotsNeededOf (duration state_bob))))) +
       2 * length (filter (\<lambda>p. p_priority p = Some ''required'' \<and>
            inSomeSlot (windowSlots (gridOfDay utc_env state_bob (day (bob_at 510))) i
                          (nat (slotsNeededOf (duration state_bob))))
              (p_name p)) (participants state_bob)))"
proof -
  from map_sum_fst_Inr [OF best_bob] obtain st' where
    r: "calculateBestTimes utc_env state_bob = Inr ([bob_at 510, bob_at 540], st')"
    by blast
  have m: "bob_at 510 \<in> set [bob_at 510, bob_at 540]" by simp
  from suggestion_score [OF r m] best_bob show ?thesis by blast
qed

theorem suggestion_available_witness:
  "map_sum id fst (calculateBestTimes utc_env state_bob) = Inr [bob_at 510, bob_at 540] \<and>
   (\<exists>i. int i + slotsNeededOf (duration state_bob) \<le> 48 \<and>
     start (bob_at 540) = utcInstant (dateAfterDays utc_env (day (bob_at 540))) (i * 30) \<and>
     set (available (bob_at 540)) =
       {nm. inSomeSlot (windowSlots (gridOfDay utc_env state_bob (day (bob_at 540))) i
                          (nat (slotsNeededOf (duration state_bob)))) nm})"
proof -
  from map_sum_fst_Inr [OF best_bob] obtain st' where
    r: "calculateBestTimes utc_env state_bob = Inr ([bob_at 510, bob_at 540], st')"
    by blast
  have m: "bob_at 540 \<in> set [bob_at 510, bob_at 540]" by simp
  from suggestion_available [OF r m] best_bob show ?thesis by blast
qed

text \<open>
  C2, as the specification words it, fails. For a one-hour meeting (two slots) with Bob,
  who is required and available from 09:00 to 09:30 only, the ranker returns the window
  that starts at 08:30 (slot 17) with score 3. The counts of slots 17 and 18 sum to 1, and
  no participant is listed in both slots, so the claimed score is 1.
\<close>

theorem score_counts_partial_attendance:
  "map_sum id fst (calculateBestTimes utc_env state_bob) = Inr [bob_at 510, bob_at 540] \<and>
   slotsNeededOf (duration state_bob) = 2 \<and>
   start (bob_at 510) = utcInstant (dateAfterDays utc_env 0) (17 * 30) \<and>
   score (bob_at 510) = 3 \<and>
   sum_list (map count (windowSlots (gridOfDay utc_env state_bob 0) 17 2)) +
     2 * length (filter (\<lambda>p. p_priority p = Some ''required'' \<and>
                          inEverySlot (windowSlots (gridOfDay utc_env state_bob 0) 17 2) (p_name p))
                   (participants state_bob)) = 1"
proof -
  have "slotsNeededOf (duration state_bob) = 2"
    by (simp add: slotsNeededOf_div state_bob_def)
  moreover have "start (bob_at 510) = utcInstant (dateAfterDays utc_env 0) (17 * 30)"
    by (simp add: bob_at_def utcInstant_def utc_env_def)
  moreover have "score (bob_at 510) = 3"
    by (simp add: bob_at_def)
  moreover have "sum_list (map count (windowSlots (gridOfDay utc_env state_bob 0) 17 2)) +
     2 * length (filter (\<lambda>p. p_priority p = Some ''required'' \<and>
                          inEverySlot (windowSlots (gridOfDay utc_env state_bob 0) 17 2) (p_name p))
                   (participants state_bob)) = 1"
    unfolding window_bob
    by (simp add: emptySlot_def inEverySlot_def namesOf_def state_bob_def)
  ultimately show ?thesis
    using best_bob by simp
qed

text \<open>
  C3, as the specification words it, fails on the same meeting: the suggestion that starts
  at 08:30 lists Bob in \<open>available\<close>, and Bob is not in slot 17 of its window.
\<close>

theorem available_lists_partial_attendance:
  "map_sum id fst (calculateBestTimes utc_env state_bob) = Inr [bob_at 510, bob_at 540] \<and>
   slotsNeededOf (duration state_bob) = 2 \<and>
   start (bob_at 510) = utcInstant (dateAfterDays utc_env 0) (17 * 30) \<and>
   ''Bob'' \<in> set (available (bob_at 510)) \<and>
   \<not> inEverySlot (windowSlots (gridOfDay utc_env state_bob 0) 17 2) ''Bob''"
proof -
  have "slotsNeededOf (duration state_bob) = 2"
    by (simp add: slotsNeededOf_div state_bob_def)
  moreover have "start (bob_at 510) = utcInstant (dateAfterDays utc_env 0) (17 * 30)"
    by (simp add: bob_at_def utcInstant_def utc_env_def)
  moreover have "''Bob'' \<in> set (available (bob_at 510))"
    by (simp add: bob_at_def)
  moreover have "\<not> inEverySlot (windowSlots (gridOfDay utc_env state_bob 0) 17 2) ''Bob''"
    unfolding window_bob
    by (simp add: emptySlot_def inEverySlot_def namesOf_def)
  ultimately show ?thesis
    using best_bob by simp
qed

subsection \<open>The half-hour meeting with Carol, whose priority is absent\<close>

lemma pushed_carol:
  assumes "i < 48"
  shows "pushedAt utc_env st' today 0 (buildSlots utc_env state_carol today) (Suc 0) i =
     (if i = 18
      then [mkSuggestion utc_env st' today 0 i (1 + requiredScore (participants st') [''Carol'']) [''Carol'']]
      else [])"
proof -
  have one: "[0..<Suc 0] = [0]" by simp
  have sc: "participants state_carol = [carol]" "\<not> excludeLunch state_carol"
    "p_start carol = ''09:00''" "p_end carol = ''09:30''"
    by (simp_all add: state_carol_def carol_def)
  have g: "buildSlots utc_env state_carol today ! i =
     (if i = 18 then \<lparr>count = 1,
                      slot_participants = [\<lparr>entry_name = p_name carol, entry_color = p_color carol, isConflict = False\<rparr>],
                      hasConflict = False\<rparr>
      else emptySlot)"
    using assms by (intro single_grid sc) simp
  have nm: "p_name carol = ''Carol''" by (simp add: carol_def)
  from assms show ?thesis
    unfolding pushedAt_def one
    by (simp add: length_buildSlots g nm emptySlot_def set_add_def requiredScore_nil)
qed

lemma scan_carol:
  "scanStarts utc_env st' today 0 (buildSlots utc_env state_carol today) (Suc 0) [0..<48] =
   Inr [mkSuggestion utc_env st' today 0 18 (1 + requiredScore (participants st') [''Carol'']) [''Carol'']]"
proof -
  have "scanStarts utc_env st' today 0 (buildSlots utc_env state_carol today) (Suc 0) [0..<48] =
        Inr (concat (map (pushedAt utc_env st' today 0 (buildSlots utc_env state_carol today) (Suc 0)) [0..<48]))"
    by (rule scanStarts_pushed) (simp add: length_buildSlots)
  also have "concat (map (pushedAt utc_env st' today 0 (buildSlots utc_env state_carol today) (Suc 0)) [0..<48]) =
     concat (map (\<lambda>i. if i = 18
        then [mkSuggestion utc_env st' today 0 i (1 + requiredScore (participants st') [''Carol'']) [''Carol'']]
        else []) [0..<48])"
    by (rule concat_map_cong, rule pushed_carol, simp)
  also have "\<dots> = [mkSuggestion utc_env st' today 0 18 (1 + requiredScore (participants st') [''Carol'']) [''Carol'']]"
    by (simp only: concat_map_if upt_48_pick list.map)
  finally show ?thesis .
qed

lemma starts_1: "[0..<nat (49 - 1)] = [0..<48]"
  by simp

text \<open>
  C5. Carol has no \<open>priority\<close> field and is available for the whole half-hour window that
  starts at 09:00. The ranker returns that window with score 1, the count of its one
  slot: the 2 points of a required participant are not added, because the bonus tests
  \<open>p.priority === 'required'\<close>. Her \<open>localTimes\<close> entry carries priority \<open>'required'\<close>,
  because that field is built with \<open>p.priority || 'required'\<close>.
\<close>

theorem absent_priority_gets_no_bonus:
  "map_sum id fst (calculateBestTimes utc_env state_carol) = Inr [carol_at_0900] \<and>
   participants state_carol = [carol] \<and> p_priority carol = None \<and>
   score carol_at_0900 = 1 \<and>
   available carol_at_0900 = [''Carol''] \<and>
   map lt_priority (localTimes carol_at_0900) = [''required'']"
proof -
  let ?g = "buildSlots utc_env state_carol today"
  let ?st1 = "state_carol\<lparr>cache := (cache state_carol)(cacheKey state_carol today \<mapsto> ?g)\<rparr>"
  have n: "slotsNeededOf (duration state_carol) = 1"
    by (simp add: slotsNeededOf_div state_carol_def)
  have d: "[0..<nat (days state_carol)] = [0]"
    by (simp add: state_carol_def)
  have m: "maxSuggestions state_carol = 5"
    by (simp add: state_carol_def)
  have c: "calculateSlotAvailability utc_env state_carol (dateAfterDays utc_env 0) = (?g, ?st1)"
    unfolding today_def by (rule calc_miss) (simp add: state_carol_def)
  have mk: "mkSuggestion utc_env ?st1 today 0 18 (1 + requiredScore (participants ?st1) [''Carol'']) [''Carol''] =
     carol_at_0900"
    by (simp add: mkSuggestion_def localTimeOf_def utcInstant_def today_fields state_carol_def carol_def
        requiredScore_def priorityOrRequired_def utc_env_def carol_at_0900_def)
  have sd: "scanDays utc_env state_carol 1 [0] =
     Inr ([mkSuggestion utc_env ?st1 today 0 18 (1 + requiredScore (participants ?st1) [''Carol'']) [''Carol'']], ?st1)"
    unfolding scanDays.simps Let_def c prod.case starts_1
    by (simp only: today_def [symmetric] nat_1 scan_carol sum.case prod.case append_Nil2)
  have "map_sum id fst (calculateBestTimes utc_env state_carol) = Inr [carol_at_0900]"
    unfolding calculateBestTimes_def Let_def n d sd mk m
    by (simp add: slice_js_def)
  then show ?thesis
    by (simp add: state_carol_def carol_def carol_at_0900_def)
qed

subsection \<open>The cache after an edit\<close>

lemma parse_alice: "parseTime (Number_other utc_env) (p_start alice) = Fin 540"
  "parseTime (Number_other utc_env) (p_end alice) = Fin 1020"
  "parseTime (Number_other utc_env) (p_start alice_edited) = Fin 600"
  "parseTime (Number_other utc_env) (p_end alice_edited) = Fin 1020"
  by (simp_all add: alice_def alice_edited_def parse_0900 parse_1000 parse_1700)

lemma slot_0900: "formatToParts utc_env tz (utcInstant baseDate 540) = Some (9, 0)"
  by (simp add: utc_env_def utcInstant_def)

text \<open>
  C4. The grid for today is built and cached for Alice, available 09:00 to 17:00. Her
  start is then edited to 10:00; her id stays. The next request for today returns the
  grid built before the edit, in which slot 18 (09:00 UTC) counts Alice; a grid built from
  the edited list counts nobody there.
\<close>

theorem cache_hit_after_edit:
  "map p_id [alice_edited] = map p_id (participants state_alice) \<and>
   fst (calculateSlotAvailability utc_env
          ((snd (calculateSlotAvailability utc_env state_alice today))
             \<lparr>participants := [alice_edited]\<rparr>) today) =
     buildSlots utc_env state_alice today \<and>
   count (buildSlots utc_env state_alice today ! 18) = 1 \<and>
   count (buildSlots utc_env (state_alice\<lparr>participants := [alice_edited]\<rparr>) today ! 18) = 0"
proof -
  let ?g = "buildSlots utc_env state_alice today"
  let ?st1 = "state_alice\<lparr>cache := (cache state_alice)(cacheKey state_alice today \<mapsto> ?g)\<rparr>"
  have ids: "map p_id [alice_edited] = map p_id (participants state_alice)"
    by (simp add: alice_edited_def state_alice_def)
  have c: "calculateSlotAvailability utc_env state_alice today = (?g, ?st1)"
    by (rule calc_miss) (simp add: state_alice_def)
  have key: "cacheKey (?st1\<lparr>participants := [alice_edited]\<rparr>) today = cacheKey state_alice today"
    using ids by (simp add: cacheKey_def)
  have "cache (?st1\<lparr>participants := [alice_edited]\<rparr>)
          (cacheKey (?st1\<lparr>participants := [alice_edited]\<rparr>) today) = Some ?g"
    unfolding key by simp
  from calc_hit [OF this] have hit:
    "fst (calculateSlotAvailability utc_env (?st1\<lparr>participants := [alice_edited]\<rparr>) today) = ?g"
    by simp
  have before: "count (?g ! 18) = 1"
    by (simp add: nth_buildSlots state_alice_def slotStep_def slot_0900 parse_alice
        isInRange_def js_ge_def emptySlot_def)
  have after: "count (buildSlots utc_env (state_alice\<lparr>participants := [alice_edited]\<rparr>) today ! 18) = 0"
    by (simp add: nth_buildSlots state_alice_def slotStep_def slot_0900 parse_alice
        isInRange_def js_ge_def emptySlot_def)
  from ids hit before after show ?thesis
    unfolding c by simp
qed

section \<open>Worst-overlapping pairs\<close>

lemma Math_round_int: "Math_round (of_int k) = k"
  unfolding Math_round_def by (rule floor_unique) simp_all

lemma Math_round_halves: "of_int (Math_round ((of_nat n * (1 / 2)) * 10)) / 10 = (of_nat n :: rat) / 2"
proof -
  have e: "(of_nat n * (1 / 2)) * 10 = (of_int (int (5 * n)) :: rat)"
    by simp
  show ?thesis
    unfolding e Math_round_int by simp
qed

lemma count_fold: "foldl (\<lambda>n i. if P i then n + 1 else n) (k::nat) xs = k + length (filter P xs)"
  by (induction xs arbitrary: k) simp_all

lemma pairSlot_within:
  "pairSlot env baseDate p1 p2 =
   (\<lambda>i. withinWindow env baseDate p1 i \<and> withinWindow env baseDate p2 i)"
  by (intro ext) (auto simp: pairSlot_def withinWindow_def Let_def split: option.splits)

lemma calculatePairOverlap_hours: "calculatePairOverlap env p1 p2 = overlapHours env p1 p2"
  unfolding calculatePairOverlap_def Let_def Math_round_halves count_fold
  by (simp add: overlapHours_def bothWithinCount_def pairSlot_within)

lemma pairsFrom_mem:
  assumes "e \<in> set (pairsFrom env ps i)"
  shows "\<exists>j. i < j \<and> j < length ps \<and> pair_p1 e = p_name (ps ! i) \<and> pair_p2 e = p_name (ps ! j) \<and>
       overlap e = overlapHours env (ps ! i) (ps ! j) \<and> overlap e < 3"
proof -
  from assms obtain j where j: "j \<in> set [i + 1..<length ps]" and
    e: "e \<in> set (let p1 = ps ! i; p2 = ps ! j; ov = calculatePairOverlap env p1 p2
                 in if ov < 3 then [\<lparr>pair_p1 = p_name p1, pair_p2 = p_name p2, overlap = ov\<rparr>] else [])"
    unfolding pairsFrom_def by auto
  from e have "overlapHours env (ps ! i) (ps ! j) < 3" and
    "e = \<lparr>pair_p1 = p_name (ps ! i), pair_p2 = p_name (ps ! j),
          overlap = overlapHours env (ps ! i) (ps ! j)\<rparr>"
    by (auto simp: Let_def calculatePairOverlap_hours split: if_splits)
  with j show ?thesis
    by (intro exI [of _ j]) simp
qed

lemma slice_js_3: "slice_js xs 3 = take 3 xs"
  by (simp add: slice_js_def Let_def min_def)

lemma concat_map_keep:
  "concat (map (\<lambda>j. if P (f j) then [f j] else []) xs) = filter P (map f xs)"
  by (induction xs) simp_all

lemma pairsFrom_low:
  "pairsFrom env ps =
   (\<lambda>i. filter (\<lambda>e. overlap e < 3) (map (\<lambda>j. pairEntry env ps (i, j)) [Suc i..<length ps]))"
proof (rule ext)
  fix i
  have "pairsFrom env ps i =
        concat (map (\<lambda>j. if overlap (pairEntry env ps (i, j)) < 3
                          then [pairEntry env ps (i, j)] else []) [Suc i..<length ps])"
    unfolding pairsFrom_def Let_def pairEntry_def calculatePairOverlap_hours by (simp cong: if_cong)
  also have "\<dots> = filter (\<lambda>e. overlap e < 3) (map (\<lambda>j. pairEntry env ps (i, j)) [Suc i..<length ps])"
    by (rule concat_map_keep)
  finally show "pairsFrom env ps i =
     filter (\<lambda>e. overlap e < 3) (map (\<lambda>j. pairEntry env ps (i, j)) [Suc i..<length ps])" .
qed

lemma all_pairs_low:
  "concat (map (pairsFrom env ps) [0..<length ps]) = lowPairs env ps"
  by (simp add: lowPairs_def indexPairs_def pairsFrom_low map_concat filter_concat comp_def)

lemma indexPairs_small: "n < 2 \<Longrightarrow> indexPairs n = []"
proof -
  assume "n < 2"
  then have "n = 0 \<or> n = 1" by auto
  then show ?thesis by (auto simp: indexPairs_def)
qed

lemma worst_pairs_eq:
  "findWorstTimezonePairs env st = take 3 (sort_key overlap (lowPairs env (participants st)))"
proof (cases "length (participants st) < 2")
  case True
  then show ?thesis
    by (simp add: findWorstTimezonePairs_def lowPairs_def indexPairs_small)
next
  case False
  then show ?thesis
    by (simp add: findWorstTimezonePairs_def all_pairs_low slice_js_3)
qed

lemma indexPairs_mem: "i < j \<Longrightarrow> j < n \<Longrightarrow> (i, j) \<in> set (indexPairs n)"
  by (auto simp: indexPairs_def intro!: bexI [of _ i])

lemma indexPairs_ordered: "(i, j) \<in> set (indexPairs n) \<Longrightarrow> i < j \<and> j < n"
  by (auto simp: indexPairs_def)

lemma cut_sorted:
  assumes "sorted (map f xs)" and "e \<in> set xs"
  shows "e \<in> set (take k xs) \<or> (length (take k xs) = k \<and> (\<forall>a\<in>set (take k xs). f a \<le> f e))"
proof (cases "e \<in> set (take k xs)")
  case True
  then show ?thesis by simp
next
  case False
  have xs: "xs = take k xs @ drop k xs" by simp
  with assms(2) False have d: "e \<in> set (drop k xs)"
    by (metis Un_iff set_append)
  then have "drop k xs \<noteq> []" by auto
  then have len: "length (take k xs) = k" by simp
  from assms(1) have "sorted (map f (take k xs) @ map f (drop k xs))"
    by (metis xs map_append)
  then have "\<forall>a\<in>set (take k xs). \<forall>b\<in>set (drop k xs). f a \<le> f b"
    by (auto simp: sorted_append)
  with d len show ?thesis by blast
qed

lemma length_slice_js: "0 \<le> n \<Longrightarrow> length (slice_js xs n) \<le> nat n"
  by (simp add: slice_js_def Let_def)

lemma sorted_slice_js: "sorted (map f xs) \<Longrightarrow> sorted (map f (slice_js xs n))"
  by (simp add: slice_js_def Let_def take_map [symmetric] sorted_wrt_take)

text \<open>
  C9. \<open>findWorstTimezonePairs\<close> returns the first 3 of the pairs with an overlap below 3
  hours, put in ascending order of overlap (pairs of equal overlap staying in the order
  \<open>i\<close> ascending, then \<open>j\<close> ascending). So it returns at most 3 pairs, and 3 when that many
  qualify; they are in ascending order; each is a pair of two positions \<open>i < j\<close> of the
  participant list, named by the two names, with an overlap below 3 hours; and a
  qualifying pair that is left out has an overlap no smaller than any returned. The
  overlap of a pair is the number of the 48 half-hour slots of today in which both
  participants are within their own windows, halved; halving a whole number leaves at
  most one decimal, so the rounding changes nothing. The lunch-exclusion setting is not
  read.
\<close>

theorem worst_pairs:
  "findWorstTimezonePairs env st = take 3 (sort_key overlap (lowPairs env (participants st))) \<and>
   length (findWorstTimezonePairs env st) \<le> 3 \<and>
   length (findWorstTimezonePairs env st) = min 3 (length (lowPairs env (participants st))) \<and>
   sorted (map overlap (findWorstTimezonePairs env st)) \<and>
   (\<forall>e \<in> set (findWorstTimezonePairs env st).
      \<exists>i j. i < j \<and> j < length (participants st) \<and>
        pair_p1 e = p_name (participants st ! i) \<and>
        pair_p2 e = p_name (participants st ! j) \<and>
        overlap e = of_nat (bothWithinCount env (participants st ! i) (participants st ! j)) / 2 \<and>
        overlap e < 3) \<and>
   (\<forall>i j. i < j \<and> j < length (participants st) \<and>
        of_nat (bothWithinCount env (participants st ! i) (participants st ! j)) / 2 < (3::rat) \<longrightarrow>
        pairEntry env (participants st) (i, j) \<in> set (findWorstTimezonePairs env st) \<or>
        (length (findWorstTimezonePairs env st) = 3 \<and>
         (\<forall>e \<in> set (findWorstTimezonePairs env st).
            overlap e \<le> of_nat (bothWithinCount env (participants st ! i) (participants st ! j)) / 2)))"
proof -
  let ?ps = "participants st"
  let ?L = "sort_key overlap (lowPairs env ?ps)"
  have r: "findWorstTimezonePairs env st = take 3 ?L" by (rule worst_pairs_eq)
  have len: "length (take 3 ?L) = min 3 (length (lowPairs env ?ps))"
    by (simp add: min.commute)
  have srt: "sorted (map overlap (take 3 ?L))"
    by (simp add: take_map [symmetric] sorted_wrt_take)
  have mem: "\<exists>i j. i < j \<and> j < length ?ps \<and>
        pair_p1 e = p_name (?ps ! i) \<and> pair_p2 e = p_name (?ps ! j) \<and>
        overlap e = of_nat (bothWithinCount env (?ps ! i) (?ps ! j)) / 2 \<and> overlap e < 3"
    if "e \<in> set (take 3 ?L)" for e
  proof -
    from that have "e \<in> set (lowPairs env ?ps)"
      by (metis in_set_takeD set_sort)
    then obtain i j where ij: "(i, j) \<in> set (indexPairs (length ?ps))" and
      e: "e = pairEntry env ?ps (i, j)" and lt: "overlap e < 3"
      by (auto simp: lowPairs_def)
    from indexPairs_ordered [OF ij] e lt show ?thesis
      by (intro exI [of _ i] exI [of _ j]) (simp add: pairEntry_def overlapHours_def)
  qed
  have top: "pairEntry env ?ps (i, j) \<in> set (take 3 ?L) \<or>
        (length (take 3 ?L) = 3 \<and>
         (\<forall>e \<in> set (take 3 ?L). overlap e \<le> of_nat (bothWithinCount env (?ps ! i) (?ps ! j)) / 2))"
    if "i < j" "j < length ?ps" "of_nat (bothWithinCount env (?ps ! i) (?ps ! j)) / 2 < (3::rat)" for i j
  proof -
    have ov: "overlap (pairEntry env ?ps (i, j)) = of_nat (bothWithinCount env (?ps ! i) (?ps ! j)) / 2"
      by (simp add: pairEntry_def overlapHours_def)
    from that have "pairEntry env ?ps (i, j) \<in> set (lowPairs env ?ps)"
      using indexPairs_mem [of i j "length ?ps"] by (simp add: lowPairs_def ov)
    then have "pairEntry env ?ps (i, j) \<in> set ?L" by simp
    from cut_sorted [OF sorted_sort_key this, of 3] show ?thesis
      by (simp only: ov)
  qed
  from len have "length (take 3 ?L) \<le> 3" by simp
  with len srt mem top show ?thesis
    unfolding r by blast
qed

lemma rat_lt_1020: "(of_nat n :: rat) < 1020 \<longleftrightarrow> n < 1020"
  using of_nat_less_iff [of n 1020, where ?'a = rat] by simp

lemma in_0900_1700: "isInRange (Fin (of_nat (k * 30))) (Fin 540) (Fin 1020) \<longleftrightarrow> 18 \<le> k \<and> k < 34"
proof -
  have "isInRange (Fin (of_nat (k * 30))) (Fin 540) (Fin 1020) \<longleftrightarrow> (540 \<le> k * 30 \<and> k * 30 < 1020)"
    by (simp only: isInRange_def js_le.simps js_ge_def js_lt.simps rat_ge_540 rat_lt_1020) simp
  also have "\<dots> \<longleftrightarrow> (18 \<le> k \<and> k < 34)" by simp
  finally show ?thesis .
qed

lemma within_bob: "withinWindow utc_env baseDate bob k \<longleftrightarrow> k = 18"
proof -
  have "p_start bob = ''09:00''" "p_end bob = ''09:30''"
    by (simp_all add: bob_def)
  then show ?thesis
    unfolding withinWindow_def utc_clock option.case prod.case utc_minutes
    by (simp only: parse_0900 parse_0930 in_0900_0930)
qed

lemma within_alice: "withinWindow utc_env baseDate alice k \<longleftrightarrow> 18 \<le> k \<and> k < 34"
proof -
  have "p_start alice = ''09:00''" "p_end alice = ''17:00''"
    by (simp_all add: alice_def)
  then show ?thesis
    unfolding withinWindow_def utc_clock option.case prod.case utc_minutes
    by (simp only: parse_0900 parse_1700 in_0900_1700)
qed

lemma rat_lt_960: "(of_nat n :: rat) < 960 \<longleftrightarrow> n < 960"
  using of_nat_less_iff [of n 960, where ?'a = rat] by simp

lemma rat_lt_360: "(of_nat n :: rat) < 360 \<longleftrightarrow> n < 360"
  using of_nat_less_iff [of n 360, where ?'a = rat] by simp

lemma rat_ge_1320: "(1320::rat) \<le> of_nat n \<longleftrightarrow> 1320 \<le> n"
  using of_nat_le_iff [of 1320 n, where ?'a = rat] by simp

lemma in_0900_1600: "isInRange (Fin (of_nat (k * 30))) (Fin 540) (Fin 960) \<longleftrightarrow> 18 \<le> k \<and> k < 32"
proof -
  have "isInRange (Fin (of_nat (k * 30))) (Fin 540) (Fin 960) \<longleftrightarrow> (540 \<le> k * 30 \<and> k * 30 < 960)"
    by (simp only: isInRange_def js_le.simps js_ge_def js_lt.simps rat_ge_540 rat_lt_960) simp
  also have "\<dots> \<longleftrightarrow> (18 \<le> k \<and> k < 32)" by simp
  finally show ?thesis .
qed

lemma in_2200_0600: "isInRange (Fin (of_nat (k * 30))) (Fin 1320) (Fin 360) \<longleftrightarrow> 44 \<le> k \<or> k < 12"
proof -
  have "isInRange (Fin (of_nat (k * 30))) (Fin 1320) (Fin 360) \<longleftrightarrow> (1320 \<le> k * 30 \<or> k * 30 < 360)"
    by (simp only: isInRange_def js_le.simps js_ge_def js_lt.simps rat_ge_1320 rat_lt_360) simp
  also have "\<dots> \<longleftrightarrow> (44 \<le> k \<or> k < 12)" by simp
  finally show ?thesis .
qed

lemma within_erin: "withinWindow utc_env baseDate erin k \<longleftrightarrow> 18 \<le> k \<and> k < 32"
proof -
  have "p_start erin = ''09:00''" "p_end erin = ''16:00''"
    by (simp_all add: erin_def)
  then show ?thesis
    unfolding withinWindow_def utc_clock option.case prod.case utc_minutes
    by (simp only: parse_0900 parse_1600 in_0900_1600)
qed

lemma within_dave: "withinWindow utc_env baseDate dave k \<longleftrightarrow> 44 \<le> k \<or> k < 12"
proof -
  have "p_start dave = ''22:00''" "p_end dave = ''06:00''"
    by (simp_all add: dave_def)
  then show ?thesis
    unfolding withinWindow_def utc_clock option.case prod.case utc_minutes
    by (simp only: parse_2200 parse_0600 in_2200_0600)
qed

lemma counts_four:
  "bothWithinCount utc_env alice bob = 1" "bothWithinCount utc_env alice erin = 14"
  "bothWithinCount utc_env alice dave = 0" "bothWithinCount utc_env bob erin = 1"
  "bothWithinCount utc_env bob dave = 0" "bothWithinCount utc_env erin dave = 0"
  unfolding bothWithinCount_def within_alice within_bob within_erin within_dave
  by code_simp+

lemma pairs_four: "indexPairs 4 = [(0, 1), (0, 2), (0, 3), (1, 2), (1, 3), (2, 3)]"
  by code_simp

lemma low_four:
  "lowPairs utc_env [alice, bob, erin, dave] =
     [\<lparr>pair_p1 = ''Alice'', pair_p2 = ''Bob'', overlap = 1 / 2\<rparr>,
      \<lparr>pair_p1 = ''Alice'', pair_p2 = ''Dave'', overlap = 0\<rparr>,
      \<lparr>pair_p1 = ''Bob'', pair_p2 = ''Erin'', overlap = 1 / 2\<rparr>,
      \<lparr>pair_p1 = ''Bob'', pair_p2 = ''Dave'', overlap = 0\<rparr>,
      \<lparr>pair_p1 = ''Erin'', pair_p2 = ''Dave'', overlap = 0\<rparr>]"
proof -
  have nm: "p_name alice = ''Alice''" "p_name bob = ''Bob''" "p_name erin = ''Erin''"
    "p_name dave = ''Dave''"
    by (simp_all add: alice_def bob_def erin_def dave_def)
  have l4: "length [alice, bob, erin, dave] = 4" by simp
  show ?thesis
    unfolding lowPairs_def l4 pairs_four
    by (simp add: pairEntry_def overlapHours_def counts_four nm)
qed

lemma worst_four:
  "findWorstTimezonePairs utc_env state_four =
   [\<lparr>pair_p1 = ''Alice'', pair_p2 = ''Dave'', overlap = 0\<rparr>,
    \<lparr>pair_p1 = ''Bob'', pair_p2 = ''Dave'', overlap = 0\<rparr>,
    \<lparr>pair_p1 = ''Erin'', pair_p2 = ''Dave'', overlap = 0\<rparr>]"
proof -
  have ps: "participants state_four = [alice, bob, erin, dave]"
    by (simp add: state_four_def)
  show ?thesis
    unfolding worst_pairs_eq ps low_four by simp
qed

theorem worst_pairs_witness:
  "participants state_four = [alice, bob, erin, dave] \<and>
   findWorstTimezonePairs utc_env state_four =
     [\<lparr>pair_p1 = ''Alice'', pair_p2 = ''Dave'', overlap = 0\<rparr>,
      \<lparr>pair_p1 = ''Bob'', pair_p2 = ''Dave'', overlap = 0\<rparr>,
      \<lparr>pair_p1 = ''Erin'', pair_p2 = ''Dave'', overlap = 0\<rparr>] \<and>
   length (lowPairs utc_env (participants state_four)) = 5 \<and>
   length (findWorstTimezonePairs utc_env state_four) = min 3 (length (lowPairs utc_env (participants state_four))) \<and>
   sorted (map overlap (findWorstTimezonePairs utc_env state_four)) \<and>
   bothWithinCount utc_env alice bob = 1 \<and>
   bothWithinCount utc_env alice erin = 14 \<and>
   pairEntry utc_env (participants state_four) (0, 1) \<notin> set (findWorstTimezonePairs utc_env state_four) \<and>
   list_all (\<lambda>e. overlap e \<le> 1 / 2) (findWorstTimezonePairs utc_env state_four)"
proof -
  have ps: "participants state_four = [alice, bob, erin, dave]"
    by (simp add: state_four_def)
  have five: "length (lowPairs utc_env (participants state_four)) = 5"
    by (simp add: ps low_four)
  have out: "pairEntry utc_env (participants state_four) (0, 1) \<notin> set (findWorstTimezonePairs utc_env state_four)"
    by (simp add: worst_four ps pairEntry_def alice_def bob_def)
  have "(0::nat) < 1 \<and> 1 < length (participants state_four) \<and>
        of_nat (bothWithinCount utc_env (participants state_four ! 0) (participants state_four ! 1)) / 2 < (3::rat)"
    by (simp add: ps counts_four)
  with worst_pairs [of utc_env state_four] out
  have "\<forall>e \<in> set (findWorstTimezonePairs utc_env state_four).
          overlap e \<le> of_nat (bothWithinCount utc_env (participants state_four ! 0) (participants state_four ! 1)) / 2"
    by blast
  then have le: "list_all (\<lambda>e. overlap e \<le> 1 / 2) (findWorstTimezonePairs utc_env state_four)"
    by (simp add: list_all_iff ps counts_four)
  from worst_pairs [of utc_env state_four]
  have len: "length (findWorstTimezonePairs utc_env state_four) =
               min 3 (length (lowPairs utc_env (participants state_four)))"
    and srt: "sorted (map overlap (findWorstTimezonePairs utc_env state_four))"
    by blast+
  have c1: "bothWithinCount utc_env alice bob = 1" and c2: "bothWithinCount utc_env alice erin = 14"
    by (rule counts_four)+
  show ?thesis
    by (intro conjI ps worst_four five len srt c1 c2 out le)
qed

section \<open>Compatibility score\<close>

subsection \<open>Counts of a grid\<close>

lemma count_slotStep: "count (slotStep env l d p i s) \<le> count s + 1"
  by (auto simp: slotStep_def Let_def split: option.splits prod.splits)

lemma count_steps: "count (foldl (\<lambda>s p. slotStep env l d p i s) s ps) \<le> count s + length ps"
proof (induction ps arbitrary: s)
  case Nil
  then show ?case by simp
next
  case (Cons p ps)
  have "count (foldl (\<lambda>s p. slotStep env l d p i s) (slotStep env l d p i s) ps)
        \<le> count (slotStep env l d p i s) + length ps"
    by (rule Cons.IH)
  also have "\<dots> \<le> count s + 1 + length ps"
    using count_slotStep [of env l d p i s] by simp
  finally show ?case by simp
qed

lemma buildSlots_counts: "list_all (\<lambda>s. count s \<le> length (participants st)) (buildSlots env st d)"
proof -
  have "count (buildSlots env st d ! i) \<le> length (participants st)" if "i < 48" for i
    using that count_steps [of env "excludeLunch st" d i emptySlot "participants st"]
    by (simp add: nth_buildSlots emptySlot_def)
  then show ?thesis
    by (simp add: list_all_length length_buildSlots)
qed

lemma cache_counts_okD:
  "cache_counts_ok c \<Longrightarrow> c (ds, ids) = Some g \<Longrightarrow> list_all (\<lambda>s. count s \<le> length ids) g"
  unfolding cache_counts_ok_def by blast

lemma grid_counts:
  assumes "cache_counts_ok (cache st)"
  shows "list_all (\<lambda>s. count s \<le> length (participants st)) (fst (calculateSlotAvailability env st d))"
proof (cases "cache st (cacheKey st d)")
  case None
  then show ?thesis
    by (simp add: calc_miss buildSlots_counts)
next
  case (Some g)
  then have "cache st (toDateString d, map p_id (participants st)) = Some g"
    by (simp add: cacheKey_def)
  from cache_counts_okD [OF assms this] Some show ?thesis
    by (simp add: calc_hit)
qed

lemma countSum_bound:
  "list_all (\<lambda>s. count s \<le> n) slots \<Longrightarrow> countSum slots \<le> length slots * n"
  by (induction slots) (auto simp: countSum_def)

lemma sum_fold:
  "a + countSum slots < 2 ^ 53 \<Longrightarrow>
   foldl (\<lambda>sum slot. js_add sum (js_int (count slot))) (Fin (of_nat a)) slots =
     Fin (of_nat (a + countSum slots))"
proof (induction slots arbitrary: a)
  case Nil
  then show ?case by (simp add: countSum_def)
next
  case (Cons s slots)
  from Cons.prems have b: "a + count s < 2 ^ 53" and r: "(a + count s) + countSum slots < 2 ^ 53"
    by (simp_all add: countSum_def)
  have "js_add (Fin (of_nat a)) (js_int (count s)) = Fin (of_nat (a + count s))"
    unfolding js_int_def by (rule js_add_nat [OF b])
  with Cons.IH [OF r] show ?case
    by (simp add: countSum_def add.assoc)
qed

lemma goldenCount_le: "goldenCount slots n \<le> length slots"
  by (simp add: goldenCount_def)

subsection \<open>The rounded score is between 0 and 100\<close>

lemma Math_round_between: "0 \<le> x \<Longrightarrow> x \<le> 100 \<Longrightarrow> 0 \<le> Math_round x \<and> Math_round x \<le> 100"
  unfolding Math_round_def by (simp add: floor_le_iff le_floor_iff) 

lemma compat_b64_steps:
  assumes "S \<le> 48 * n" and "0 < n" and "n < 2 ^ 32" and "G \<le> 48"
  shows "Math_round_js
           (js_add (js_mul (js_div (js_div (Fin (of_nat S)) (Fin 48)) (Fin (of_nat n))) (Fin 60))
                   (js_mul (js_div (Fin (of_nat G)) (Fin 48)) (Fin 40))) =
         Fin (of_int (compat_b64 S n G))"
    and "0 \<le> compat_b64 S n G" and "compat_b64 S n G \<le> 100"
proof -
  have nb: "n < 2 ^ 53" using assms(3) by (rule less_trans) simp
  have nr: "(0::rat) < of_nat n" using assms(2) by simp
  let ?y1 = "fl (of_nat S / 48)"
  have "(of_nat S :: rat) \<le> of_nat (48 * n)" using assms(1) by (simp only: of_nat_le_iff)
  then have x1: "(of_nat S :: rat) / 48 \<le> of_nat n" by simp
  have y1: "0 \<le> ?y1" "?y1 \<le> of_nat n" "js_num (of_nat S / 48) = Fin ?y1"
    using fl_between [OF _ x1 nb] by simp_all
  let ?y2 = "fl (?y1 / of_nat n)"
  have x2: "?y1 / of_nat n \<le> of_nat 1" using y1(2) nr by (simp add: divide_le_eq)
  have y2: "0 \<le> ?y2" "?y2 \<le> 1" "js_num (?y1 / of_nat n) = Fin ?y2"
    using fl_between [OF _ x2, of ] y1(1) nr by simp_all
  let ?y3 = "fl (?y2 * 60)"
  have x3: "?y2 * 60 \<le> of_nat 60" using y2(2) by simp
  have y3: "0 \<le> ?y3" "?y3 \<le> 60" "js_num (?y2 * 60) = Fin ?y3"
    using fl_between [OF _ x3] y2(1) by simp_all
  let ?g1 = "fl (of_nat G / 48)"
  have "(of_nat G :: rat) \<le> of_nat 48" using assms(4) by (simp only: of_nat_le_iff)
  then have x4: "(of_nat G :: rat) / 48 \<le> of_nat 1" by simp
  have g1: "0 \<le> ?g1" "?g1 \<le> 1" "js_num (of_nat G / 48) = Fin ?g1"
    using fl_between [OF _ x4] by simp_all
  let ?g2 = "fl (?g1 * 40)"
  have x5: "?g1 * 40 \<le> of_nat 40" using g1(2) by simp
  have g2: "0 \<le> ?g2" "?g2 \<le> 40" "js_num (?g1 * 40) = Fin ?g2"
    using fl_between [OF _ x5] g1(1) by simp_all
  let ?t = "fl (?y3 + ?g2)"
  have x6: "?y3 + ?g2 \<le> of_nat 100" using y3(2) g2(2) by simp
  have t: "0 \<le> ?t" "?t \<le> 100" "js_num (?y3 + ?g2) = Fin ?t"
    using fl_between [OF _ x6] y3(1) g2(1) by simp_all
  have r: "compat_b64 S n G = Math_round ?t"
    by (simp add: compat_b64_def)
  from Math_round_between [OF t(1,2)] show "0 \<le> compat_b64 S n G" and "compat_b64 S n G \<le> 100"
    by (simp_all only: r)
  have "js_div (Fin (of_nat S)) (Fin 48) = Fin ?y1"
    using y1(3) by simp
  moreover have "js_div (Fin ?y1) (Fin (of_nat n)) = Fin ?y2"
    using y2(3) nr by simp
  moreover have "js_mul (Fin ?y2) (Fin 60) = Fin ?y3"
    using y3(3) by simp
  moreover have "js_div (Fin (of_nat G)) (Fin 48) = Fin ?g1"
    using g1(3) by simp
  moreover have "js_mul (Fin ?g1) (Fin 40) = Fin ?g2"
    using g2(3) by simp
  moreover have "js_add (Fin ?y3) (Fin ?g2) = Fin ?t"
    using t(3) by simp
  ultimately show "Math_round_js
           (js_add (js_mul (js_div (js_div (Fin (of_nat S)) (Fin 48)) (Fin (of_nat n))) (Fin 60))
                   (js_mul (js_div (Fin (of_nat G)) (Fin 48)) (Fin 40))) =
         Fin (of_int (compat_b64 S n G))"
    by (simp only: r Math_round_js.simps)
qed


subsection \<open>The golden threshold\<close>

text \<open>
  The literal \<open>0.8\<close> is a little above four fifths, by one part in \<open>5 * 2^52\<close>. For fewer
  than \<open>2^32\<close> participants the product with the number of participants still has the
  ceiling of the exact four fifths.
\<close>

lemma fl_four_fifths: "fl (4 / 5) = 3602879701896397 / 4503599627370496"
  by code_simp

lemma rhe_near: "of_int N \<le> z \<Longrightarrow> z < of_int N + 1 / 2 \<Longrightarrow> rhe z = N"
proof -
  assume a: "of_int N \<le> z" "z < of_int N + 1 / 2"
  then have "\<lfloor>z\<rfloor> = N" by (intro floor_unique) simp_all
  with a show ?thesis by (simp add: rhe_def Let_def)
qed

lemma pow2_times4: "(2::rat) powi (e + 1) = 4 * 2 powi (e - 1)"
proof -
  have "e + 1 = 2 + (e - 1)" by arith
  then have "(2::rat) powi (e + 1) = 2 powi (2 + (e - 1))" by (rule arg_cong)
  also have "\<dots> = 2 powi 2 * 2 powi (e - 1)" by (rule pow2_add)
  finally show ?thesis by simp
qed

lemma pow2_half: "(2::rat) powi (e - 1) = 2 powi e / 2"
proof -
  have "(2::rat) powi (e - 1) = 2 powi e / 2 powi 1" by (rule pow2_split)
  then show ?thesis by simp
qed

lemma threshold_multiple:
  assumes "0 < m" and "m < 2 ^ 32"
  shows "fl (of_nat (4 * m) + of_nat m / 4503599627370496) = of_nat (4 * m)"
proof -
  let ?k = "of_nat (4 * m) :: rat"
  let ?x = "?k + of_nat m / 4503599627370496"
  let ?e = "expo ?k"
  have kp: "0 < ?k" using assms(1) by simp
  then have knz: "?k \<noteq> 0" and ak: "\<bar>?k\<bar> = ?k" by simp_all
  have lo: "2 powi ?e \<le> ?k" and hi: "?k < 2 powi (?e + 1)"
    using expo_bounds [OF knz] ak by simp_all
  have "(2::rat) powi 2 \<le> ?k" using assms(1) by simp
  with hi have "(2::rat) powi 2 < 2 powi (?e + 1)" by simp
  then have "2 < ?e + 1" by (simp only: pow2_less_iff)
  then have e2: "2 \<le> ?e" by simp
  have "?k < 2 powi 34"
  proof -
    have "4 * m < 2 ^ 34" using assms(2) by simp
    then have "(of_nat (4 * m) :: rat) < of_nat (2 ^ 34)" by (simp only: of_nat_less_iff)
    then show ?thesis by simp
  qed
  with lo have "(2::rat) powi ?e < 2 powi 34" by simp
  then have e34: "?e < 34" by (simp only: pow2_less_iff)
  have mr: "(of_nat m :: rat) < 4503599627370496"
  proof -
    have "m < 4503599627370496" using assms(2) by simp
    then have "(of_nat m :: rat) < of_nat 4503599627370496" by (simp only: of_nat_less_iff)
    then show ?thesis by simp
  qed
  have xk: "?k \<le> ?x" by simp
  have xp: "0 < ?x" using kp by (simp add: add_pos_nonneg)
  have x1: "?x < ?k + 1" using mr by simp
  have "?k + 1 \<le> 2 powi (?e + 1)"
  proof -
    have "(2::rat) powi (?e + 1) = of_int (2 ^ nat (?e + 1))"
      using e2 by (simp add: power_int_nonneg_exp)
    with hi have "(of_int (int (4 * m)) :: rat) < of_int (2 ^ nat (?e + 1))" by simp
    then have "int (4 * m) < 2 ^ nat (?e + 1)" by (simp only: of_int_less_iff)
    then have "int (4 * m) + 1 \<le> 2 ^ nat (?e + 1)" by simp
    then have "(of_int (int (4 * m) + 1) :: rat) \<le> of_int (2 ^ nat (?e + 1))"
      by (simp only: of_int_le_iff)
    with \<open>(2::rat) powi (?e + 1) = of_int (2 ^ nat (?e + 1))\<close> show ?thesis by simp
  qed
  with x1 have xhi: "?x < 2 powi (?e + 1)" by simp
  from lo xk have xlo: "2 powi ?e \<le> ?x" by simp
  have ex: "expo ?x = ?e"
    using xlo xhi xp by (intro expo_unique) simp_all
  have "max ?e (- 1022) = ?e" using e2 by simp
  then have q: "quantum ?x = 2 powi (?e - 52)"
    unfolding quantum_def ex by (simp only:)
  define N where "N = int (4 * m) * 2 ^ nat (0 - (?e - 52))"
  have kq: "?k / 2 powi (?e - 52) = of_int N"
    using over_quantum [of "?e - 52" 0 "int (4 * m)"] e34 by (simp add: N_def)
  have pe: "(4503599627370496::rat) * 2 powi (?e - 52) = 2 powi ?e"
    using pow2_add [of 52 "?e - 52"] by simp
  have dq: "of_nat m / 4503599627370496 / 2 powi (?e - 52) = (of_nat m :: rat) / 2 powi ?e"
    by (simp only: divide_divide_eq_left pe)
  have xq: "?x / quantum ?x = of_int N + of_nat m / 2 powi ?e"
    unfolding q by (simp only: add_divide_distrib kq dq)
  from hi have "(of_nat m :: rat) < 2 powi (?e - 1)"
    unfolding pow2_times4 by simp
  then have d: "(of_nat m :: rat) / 2 powi ?e < 1 / 2"
    unfolding pow2_half by (simp add: divide_less_eq)
  have d0: "0 \<le> (of_nat m :: rat) / 2 powi ?e" by simp
  have "rhe (?x / quantum ?x) = N"
    unfolding xq using d d0 by (intro rhe_near) simp_all
  then have "fl ?x = of_int N * quantum ?x"
    using xp by (simp add: fl_def)
  also have "\<dots> = ?k / 2 powi (?e - 52) * 2 powi (?e - 52)"
    by (simp only: kq q)
  also have "\<dots> = ?k" by simp
  finally show ?thesis .
qed


lemma threshold_exact:
  assumes "n < 2 ^ 32"
  shows "\<lceil>fl (of_nat n * fl (4 / 5))\<rceil> = \<lceil>4 * (of_nat n :: rat) / 5\<rceil>"
proof -
  let ?c = "3602879701896397 / 4503599627370496 :: rat"
  let ?x = "of_nat n * ?c"
  have c: "?x = 4 * of_nat n / 5 + of_nat n / 22517998136852480"
    by simp
  have goal: "\<lceil>fl ?x\<rceil> = \<lceil>4 * (of_nat n :: rat) / 5\<rceil>"
  proof (cases "5 dvd n")
    case True
    then obtain m where n: "n = 5 * m" by (auto elim: dvdE)
    show ?thesis
    proof (cases "m = 0")
      case True
      with n show ?thesis by (simp add: fl_def)
    next
      case False
      then have mp: "0 < m" by simp
      from assms n have mb: "m < 2 ^ 32" by simp
      have "?x = of_nat (4 * m) + of_nat m / 4503599627370496"
        unfolding c n by simp
      with threshold_multiple [OF mp mb] have "fl ?x = of_nat (4 * m)" by simp
      moreover have "4 * (of_nat n :: rat) / 5 = of_nat (4 * m)"
        unfolding n by simp
      ultimately show ?thesis by simp
    qed
  next
    case False
    define q0 where "q0 = int ((4 * n) div 5)"
    define r0 where "r0 = (4 * n) mod 5"
    have "\<not> 5 dvd 4 * n"
    proof
      assume "5 dvd 4 * n"
      moreover have "(5::nat) dvd 5 * n" by simp
      ultimately have "5 dvd 5 * n - 4 * n" by (rule dvd_diff_nat [rotated])
      then have "5 dvd n" by simp
      with False show False by simp
    qed
    then have r1: "1 \<le> r0" by (simp add: r0_def dvd_eq_mod_eq_0)
    have r4: "r0 \<le> 4" by (simp add: r0_def)
    have "4 * n = 5 * ((4 * n) div 5) + r0" by (simp add: r0_def)
    then have "(of_nat (4 * n) :: rat) = of_nat (5 * ((4 * n) div 5) + r0)" by (simp only:)
    then have e: "4 * (of_nat n :: rat) / 5 = of_int q0 + of_nat r0 / 5"
      by (simp add: q0_def)
    have q0: "0 \<le> q0" by (simp add: q0_def)
    have qb: "q0 < 2 ^ 32"
    proof -
      have "(4 * n) div 5 \<le> n" by simp
      then have "(4 * n) div 5 < 2 ^ 32" using assms by (rule le_less_trans)
      then show ?thesis unfolding q0_def by (metis of_nat_less_numeral_power_cancel_iff)
    qed
    have rl: "(1::rat) / 5 \<le> of_nat r0 / 5" using r1 by simp
    have rh: "of_nat r0 / 5 \<le> (4::rat) / 5"
    proof -
      from r4 have "(of_nat r0 :: rat) \<le> of_nat 4" by (simp only: of_nat_le_iff)
      then show ?thesis by simp
    qed
    have small: "(of_nat n :: rat) / 22517998136852480 < 1 / 5"
    proof -
      from assms have "n < 4294967296" by simp
      then have "(of_nat n :: rat) < of_nat 4294967296" by (simp only: of_nat_less_iff)
      then show ?thesis by simp
    qed
    have n0: "0 \<le> (of_nat n :: rat) / 22517998136852480" by simp
    have xl: "of_int q0 + 1 / 8 \<le> ?x" unfolding c e using rl n0 by linarith
    have xu: "?x \<le> of_int q0 + 1" unfolding c e using rh small by linarith
    have a8: "of_int (8 * q0 + 1) * (2::rat) powi (- 3) = of_int q0 + 1 / 8"
      by (simp add: power_int_minus field_simps)
    have m8: "8 * q0 + 1 < 2 ^ 53" using qb by simp
    have "of_int (8 * q0 + 1) * (2::rat) powi (- 3) \<le> fl ?x"
    proof (rule fl_lower [OF _ _ m8])
      show "0 < of_int (8 * q0 + 1) * (2::rat) powi (- 3)" unfolding a8 using q0 by simp
      show "of_int (8 * q0 + 1) * (2::rat) powi (- 3) \<le> ?x" unfolding a8 by (rule xl)
      show "- 1074 \<le> (- 3 :: int)" by simp
    qed
    then have fl_lo: "of_int q0 + 1 / 8 \<le> fl ?x" unfolding a8 .
    have xp: "0 < ?x" using xl q0 by simp
    have m1: "q0 + 1 < 2 ^ 53" using qb by simp
    have "fl ?x \<le> of_int (q0 + 1) * (2::rat) powi 0"
    proof (rule fl_upper [OF xp _ m1])
      show "?x \<le> of_int (q0 + 1) * (2::rat) powi 0" using xu by simp
      show "- 1074 \<le> (0::int)" by simp
    qed
    then have fl_hi: "fl ?x \<le> of_int q0 + 1" by simp
    have "\<lceil>fl ?x\<rceil> = q0 + 1"
      using fl_lo fl_hi by (intro ceiling_unique) simp_all
    moreover have "\<lceil>4 * (of_nat n :: rat) / 5\<rceil> = q0 + 1"
      unfolding e using rl rh by (intro ceiling_unique) simp_all
    ultimately show ?thesis by simp
  qed
  show ?thesis unfolding fl_four_fifths by (rule goal)
qed


subsection \<open>The golden threshold and the golden slots\<close>

lemma golden_threshold:
  assumes "n < 2 ^ 32"
  shows "Math_ceil (js_mul (js_int n) (js_num (4 / 5))) = Fin (of_int \<lceil>4 * (of_nat n :: rat) / 5\<rceil>)"
proof -
  have c: "0 \<le> fl (4 / 5)" "fl (4 / 5) \<le> of_nat 1" "js_num (4 / 5) = Fin (fl (4 / 5))"
    by (rule fl_between [of "4 / 5" 1]; simp)+
  let ?x = "of_nat n * fl (4 / 5)"
  have x0: "0 \<le> ?x" using c(1) by simp
  have x1: "?x \<le> of_nat n"
  proof -
    have "of_nat n * fl (4 / 5) \<le> of_nat n * 1"
      using c(2) by (intro mult_left_mono) simp_all
    then show ?thesis by simp
  qed
  have nb: "n < 2 ^ 53"
  proof -
    have "(2::nat) ^ 32 \<le> 2 ^ 53" by (rule power_increasing) simp_all
    with assms show ?thesis by (rule less_le_trans)
  qed
  have "js_mul (js_int n) (js_num (4 / 5)) = js_num ?x"
    unfolding c(3) js_int_def by simp
  also have "\<dots> = Fin (fl ?x)" by (rule fl_between(3) [OF x0 x1 nb])
  finally show ?thesis
    using threshold_exact [OF assms] by simp
qed

lemma golden_test: "js_ge (js_int c) (Fin (of_int T)) \<longleftrightarrow> T \<le> int c"
proof -
  have "(of_nat c :: rat) = of_int (int c)" by simp
  then show ?thesis
    unfolding js_ge_def js_int_def js_le.simps by (simp only: of_int_le_iff)
qed

lemma golden_slots:
  assumes "n < 2 ^ 32"
  shows "length (filter (\<lambda>s. js_ge (js_int (count s)) (Math_ceil (js_mul (js_int n) (js_num (4 / 5))))) slots) =
         goldenCount slots n"
  unfolding golden_threshold [OF assms] golden_test goldenCount_def ..

subsection \<open>The score the code returns\<close>

lemma compat_value:
  assumes n2: "2 \<le> length (participants st)" and nb: "length (participants st) < 2 ^ 32"
    and ok: "cache_ok (cache st)" and cnt: "cache_counts_ok (cache st)"
  shows "fst (calculateTimezoneCompatibility env st) =
           Fin (of_int (compat_b64 (countSum (fst (calculateSlotAvailability env st (dateAfterDays env 0))))
                          (length (participants st))
                          (goldenCount (fst (calculateSlotAvailability env st (dateAfterDays env 0)))
                             (length (participants st)))))"
    and "0 \<le> compat_b64 (countSum (fst (calculateSlotAvailability env st (dateAfterDays env 0))))
                (length (participants st))
                (goldenCount (fst (calculateSlotAvailability env st (dateAfterDays env 0)))
                   (length (participants st)))"
    and "compat_b64 (countSum (fst (calculateSlotAvailability env st (dateAfterDays env 0))))
           (length (participants st))
           (goldenCount (fst (calculateSlotAvailability env st (dateAfterDays env 0)))
              (length (participants st))) \<le> 100"
proof -
  let ?n = "length (participants st)"
  define grid where "grid = fst (calculateSlotAvailability env st (dateAfterDays env 0))"
  have len: "length grid = 48"
    unfolding grid_def using grid_ok [OF ok] by simp
  have counts: "list_all (\<lambda>s. count s \<le> ?n) grid"
    unfolding grid_def by (rule grid_counts [OF cnt])
  have S: "countSum grid \<le> 48 * ?n"
    using countSum_bound [OF counts] len by simp
  have G: "goldenCount grid ?n \<le> 48"
    using goldenCount_le [of grid ?n] len by simp
  have np: "0 < ?n" using n2 by (cases "participants st") simp_all
  have nl: "\<not> ?n < 2" using n2 by simp
  have "48 * ?n < 48 * 2 ^ 32" using nb by simp
  also have "\<dots> \<le> (2::nat) ^ 53" by simp
  finally have "0 + countSum grid < 2 ^ 53" using S by simp
  from sum_fold [OF this]
  have fold: "foldl (\<lambda>sum slot. js_add sum (js_int (count slot))) (Fin 0) grid = Fin (of_nat (countSum grid))"
    by simp
  have gold: "length (filter (\<lambda>s. js_ge (js_int (count s)) (Math_ceil (js_mul (js_int ?n) (js_num (4 / 5))))) grid) =
              goldenCount grid ?n"
    by (rule golden_slots [OF nb])
  have l48: "js_int (length grid) = Fin 48"
    unfolding len js_int_def by simp
  have "fst (calculateTimezoneCompatibility env st) =
        Math_round_js
           (js_add (js_mul (js_div (js_div (Fin (of_nat (countSum grid))) (Fin 48)) (Fin (of_nat ?n))) (Fin 60))
                   (js_mul (js_div (Fin (of_nat (goldenCount grid ?n))) (Fin 48)) (Fin 40)))"
    unfolding calculateTimezoneCompatibility_def Let_def
    by (simp only: nl if_False split_beta grid_def [symmetric] fold gold l48 fst_conv)
       (simp only: js_int_def)
  with compat_b64_steps [OF S np nb G]
  show "fst (calculateTimezoneCompatibility env st) =
           Fin (of_int (compat_b64 (countSum (fst (calculateSlotAvailability env st (dateAfterDays env 0))))
                          (length (participants st))
                          (goldenCount (fst (calculateSlotAvailability env st (dateAfterDays env 0)))
                             (length (participants st)))))"
    and "0 \<le> compat_b64 (countSum (fst (calculateSlotAvailability env st (dateAfterDays env 0))))
                (length (participants st))
                (goldenCount (fst (calculateSlotAvailability env st (dateAfterDays env 0)))
                   (length (participants st)))"
    and "compat_b64 (countSum (fst (calculateSlotAvailability env st (dateAfterDays env 0))))
           (length (participants st))
           (goldenCount (fst (calculateSlotAvailability env st (dateAfterDays env 0)))
              (length (participants st))) \<le> 100"
    unfolding grid_def by simp_all
qed

lemma compat_few: "length (participants st) < 2 \<Longrightarrow> calculateTimezoneCompatibility env st = (Fin 0, st)"
  by (simp add: calculateTimezoneCompatibility_def)


lemma cache_counts_ok_after:
  assumes "cache_counts_ok (cache st)"
  shows "cache_counts_ok (cache (snd (calculateSlotAvailability env st d)))"
proof (cases "cache st (cacheKey st d)")
  case None
  have b: "list_all (\<lambda>s. count s \<le> length (map p_id (participants st))) (buildSlots env st d)"
    using buildSlots_counts [of st env d] by simp
  show ?thesis
    unfolding calc_miss [OF None] cache_counts_ok_def
    using assms b by (auto simp: cacheKey_def dest: cache_counts_okD)
next
  case (Some g)
  with assms show ?thesis by (simp add: calc_hit)
qed

subsection \<open>Three participants, one of them available for seven hours\<close>

lemma count_slotStep_within:
  "count (slotStep env False d p i s) = count s + (if withinWindow env d p i then 1 else 0)"
  by (simp add: slotStep_def withinWindow_def Let_def split: option.splits prod.splits)

lemma count_steps_within:
  "count (foldl (\<lambda>s p. slotStep env False d p i s) s ps) =
     count s + length (filter (\<lambda>p. withinWindow env d p i) ps)"
proof (induction ps arbitrary: s)
  case Nil
  then show ?case by simp
next
  case (Cons p ps)
  show ?case
    by (simp add: Cons.IH count_slotStep_within)
qed

lemma within_carol: "withinWindow utc_env baseDate carol k \<longleftrightarrow> k = 18"
proof -
  have "p_start carol = ''09:00''" "p_end carol = ''09:30''"
    by (simp_all add: carol_def)
  then show ?thesis
    unfolding withinWindow_def utc_clock option.case prod.case utc_minutes
    by (simp only: parse_0900 parse_0930 in_0900_0930)
qed

lemma count_three:
  assumes "i < 48"
  shows "count (buildSlots utc_env state_three d ! i) = counts_three i"
proof -
  have "count (buildSlots utc_env state_three d ! i) =
        count emptySlot + length (filter (\<lambda>p. withinWindow utc_env d p i) [bob, carol, erin])"
    unfolding nth_buildSlots [OF assms]
    by (simp only: state_three_def state.simps count_steps_within)
  then show ?thesis
    by (simp add: emptySlot_def within_bob within_carol within_erin counts_three_def)
qed

lemma grid_three:
  "map count (fst (calculateSlotAvailability utc_env state_three d)) = map counts_three [0..<48]"
proof -
  have "cache state_three (cacheKey state_three d) = None"
    by (simp add: state_three_def)
  then have g: "fst (calculateSlotAvailability utc_env state_three d) = buildSlots utc_env state_three d"
    by (simp add: calc_miss)
  show ?thesis
    unfolding g
    by (rule nth_equalityI) (simp_all add: length_buildSlots count_three del: upt_Suc)
qed

lemma sum_three: "countSum (fst (calculateSlotAvailability utc_env state_three d)) = 16"
proof -
  have "sum_list (map counts_three [0..<48]) = 16" by code_simp
  then show ?thesis unfolding countSum_def grid_three .
qed

lemma golden_three: "goldenCount (fst (calculateSlotAvailability utc_env state_three d)) 3 = 1"
proof -
  have a: "goldenCount slots 3 = length (filter (\<lambda>c. \<lceil>4 * (of_nat 3 :: rat) / 5\<rceil> \<le> int c) (map count slots))" for slots
    unfolding goldenCount_def by (induction slots) simp_all
  have b: "length (filter (\<lambda>c. \<lceil>4 * (of_nat 3 :: rat) / 5\<rceil> \<le> int c) (map counts_three [0..<48])) = 1"
    by code_simp
  show ?thesis unfolding a grid_three by (rule b)
qed

lemma b64_three: "compat_b64 16 3 1 = 7"
  by code_simp

lemma exact_three: "compat_exact 16 3 1 = 8"
  by code_simp

lemma three_ok:
  "length (participants state_three) = 3" "cache_ok (cache state_three)"
  "cache_counts_ok (cache state_three)"
  by (simp_all add: state_three_def cache_ok_def cache_counts_ok_def)

lemma score_three: "fst (calculateTimezoneCompatibility utc_env state_three) = Fin 7"
proof -
  have "2 \<le> length (participants state_three)" "length (participants state_three) < 2 ^ 32"
    by (simp_all add: three_ok(1))
  from compat_value(1) [OF this three_ok(2,3), of utc_env]
  show ?thesis
    unfolding three_ok(1) sum_three golden_three b64_three by simp
qed

text \<open>
  C8, as the code has it. With fewer than two participants the score is 0. With \<open>n \<ge> 2\<close>
  participants (an array holds fewer than \<open>2^32\<close>), and a cache holding what earlier calls
  built, the score is the worded formula over today's grid with every operation rounded to
  binary64 in the order of the code: the sum of the 48 counts over 48, over \<open>n\<close>, times 60,
  plus the number of golden slots over 48, times 40, the whole rounded to the nearest
  integer. A slot is golden when its count is at least the ceiling of \<open>4n/5\<close>: the product
  \<open>n * 0.8\<close> of the code, rounded to binary64, has that same ceiling. The score is an integer
  between 0 and 100.
\<close>

theorem compatibility_score:
  "(length (participants st) < 2 \<longrightarrow> fst (calculateTimezoneCompatibility env st) = Fin 0) \<and>
   (2 \<le> length (participants st) \<and> length (participants st) < 2 ^ 32 \<and>
    cache_ok (cache st) \<and> cache_counts_ok (cache st) \<longrightarrow>
      fst (calculateTimezoneCompatibility env st) =
        Fin (of_int (compat_b64 (countSum (fst (calculateSlotAvailability env st (dateAfterDays env 0))))
                       (length (participants st))
                       (goldenCount (fst (calculateSlotAvailability env st (dateAfterDays env 0)))
                          (length (participants st))))) \<and>
      0 \<le> compat_b64 (countSum (fst (calculateSlotAvailability env st (dateAfterDays env 0))))
             (length (participants st))
             (goldenCount (fst (calculateSlotAvailability env st (dateAfterDays env 0)))
                (length (participants st))) \<and>
      compat_b64 (countSum (fst (calculateSlotAvailability env st (dateAfterDays env 0))))
        (length (participants st))
        (goldenCount (fst (calculateSlotAvailability env st (dateAfterDays env 0)))
           (length (participants st))) \<le> 100)"
proof (intro conjI impI)
  assume "length (participants st) < 2"
  then show "fst (calculateTimezoneCompatibility env st) = Fin 0"
    by (simp add: compat_few)
next
  assume a: "2 \<le> length (participants st) \<and> length (participants st) < 2 ^ 32 \<and>
    cache_ok (cache st) \<and> cache_counts_ok (cache st)"
  then have h: "2 \<le> length (participants st)" "length (participants st) < 2 ^ 32"
    "cache_ok (cache st)" "cache_counts_ok (cache st)"
    by blast+
  show "fst (calculateTimezoneCompatibility env st) =
        Fin (of_int (compat_b64 (countSum (fst (calculateSlotAvailability env st (dateAfterDays env 0))))
                       (length (participants st))
                       (goldenCount (fst (calculateSlotAvailability env st (dateAfterDays env 0)))
                          (length (participants st)))))"
    by (rule compat_value(1) [OF h])
  show "0 \<le> compat_b64 (countSum (fst (calculateSlotAvailability env st (dateAfterDays env 0))))
             (length (participants st))
             (goldenCount (fst (calculateSlotAvailability env st (dateAfterDays env 0)))
                (length (participants st)))"
    by (rule compat_value(2) [OF h])
  show "compat_b64 (countSum (fst (calculateSlotAvailability env st (dateAfterDays env 0))))
        (length (participants st))
        (goldenCount (fst (calculateSlotAvailability env st (dateAfterDays env 0)))
           (length (participants st))) \<le> 100"
    by (rule compat_value(3) [OF h])
qed

theorem compatibility_score_witness:
  "length (participants state_alice) = 1 \<and>
   fst (calculateTimezoneCompatibility utc_env state_alice) = Fin 0 \<and>
   length (participants state_three) = 3 \<and>
   cache_ok (cache state_three) \<and> cache_counts_ok (cache state_three) \<and>
   countSum (fst (calculateSlotAvailability utc_env state_three (dateAfterDays utc_env 0))) = 16 \<and>
   goldenCount (fst (calculateSlotAvailability utc_env state_three (dateAfterDays utc_env 0))) 3 = 1 \<and>
   compat_b64 16 3 1 = 7 \<and>
   fst (calculateTimezoneCompatibility utc_env state_three) = Fin 7"
proof -
  have one: "length (participants state_alice) = 1"
    by (simp add: state_alice_def)
  have three: "2 \<le> length (participants state_three) \<and> length (participants state_three) < 2 ^ 32 \<and>
    cache_ok (cache state_three) \<and> cache_counts_ok (cache state_three)"
    by (simp add: three_ok)
  from compatibility_score [of state_alice utc_env] one
  have a: "fst (calculateTimezoneCompatibility utc_env state_alice) = Fin 0"
    by simp
  from compatibility_score [of state_three utc_env] three
  have "fst (calculateTimezoneCompatibility utc_env state_three) =
        Fin (of_int (compat_b64 (countSum (fst (calculateSlotAvailability utc_env state_three (dateAfterDays utc_env 0))))
                       (length (participants state_three))
                       (goldenCount (fst (calculateSlotAvailability utc_env state_three (dateAfterDays utc_env 0)))
                          (length (participants state_three)))))"
    by blast
  then have b: "fst (calculateTimezoneCompatibility utc_env state_three) = Fin 7"
    unfolding three_ok(1) sum_three golden_three b64_three by simp
  show ?thesis
    by (intro conjI one a three_ok sum_three golden_three b64_three b)
qed

text \<open>
  C8, as the specification words it, fails: the formula evaluated exactly and then rounded
  is not what the code returns. For three participants, two of them available from 09:00
  to 09:30 and the third from 09:00 to 16:00, the counts of today's grid sum to 16 and one
  slot is golden; the formula is \<open>(16/48/3) * 60 + (1/48) * 40 = 7.5\<close>, which rounds to 8,
  and the code, whose binary64 sum is just below 7.5, returns 7.
\<close>

theorem compatibility_score_not_exact:
  "length (participants state_three) = 3 \<and>
   countSum (fst (calculateSlotAvailability utc_env state_three (dateAfterDays utc_env 0))) = 16 \<and>
   goldenCount (fst (calculateSlotAvailability utc_env state_three (dateAfterDays utc_env 0))) 3 = 1 \<and>
   compat_exact 16 3 1 = 8 \<and>
   fst (calculateTimezoneCompatibility utc_env state_three) = Fin 7 \<and>
   fst (calculateTimezoneCompatibility utc_env state_three) \<noteq>
     Fin (of_int (compat_exact
       (countSum (fst (calculateSlotAvailability utc_env state_three (dateAfterDays utc_env 0))))
       (length (participants state_three))
       (goldenCount (fst (calculateSlotAvailability utc_env state_three (dateAfterDays utc_env 0)))
          (length (participants state_three)))))"
proof -
  have "fst (calculateTimezoneCompatibility utc_env state_three) \<noteq>
     Fin (of_int (compat_exact
       (countSum (fst (calculateSlotAvailability utc_env state_three (dateAfterDays utc_env 0))))
       (length (participants state_three))
       (goldenCount (fst (calculateSlotAvailability utc_env state_three (dateAfterDays utc_env 0)))
          (length (participants state_three)))))"
    unfolding three_ok(1) sum_three golden_three exact_three score_three by simp
  then show ?thesis
    by (intro conjI three_ok(1) sum_three golden_three exact_three score_three)
qed

end
